theory Spec2Isabelle
  imports Complex_Main "HOL-Library.Sublist" "HOL-Library.Log_Nat"
begin

section \<open>The screenshot capturer (src/screenshots/capturer.js)\<close>

text \<open>
  A shallow embedding of the class \<^verbatim>\<open>Capturer\<close>. The leading underscore of the
  private methods is dropped (\<^verbatim>\<open>_capture\<close> is \<open>capture\<close>, and so on).

  A JavaScript number is modelled by its value, a rational. Comparison, \<^verbatim>\<open>Math.max\<close>,
  \<^verbatim>\<open>Math.floor\<close> and \<^verbatim>\<open>Math.round\<close> are exact on the value of a double. The product
  \<^verbatim>\<open>x * y\<close> is the exact product rounded to the nearest binary64 value, a tie going to
  the even significand (\<open>mul\<close> below). NaN, the infinities and the sign of zero are outside
  the model, and so is a product whose magnitude reaches \<open>2 ^ 1024\<close>.
  A value that may be \<^verbatim>\<open>undefined\<close> or \<^verbatim>\<open>null\<close> is an \<open>option\<close>.
\<close>

subsection \<open>Numbers\<close>

type_synonym num = rat

definition Math_floor :: "num \<Rightarrow> int" where
  "Math_floor x = \<lfloor>x\<rfloor>"

text \<open>\<^verbatim>\<open>Math.round\<close> gives the nearest integer, a tie going towards plus infinity.\<close>

definition Math_round :: "num \<Rightarrow> int" where
  "Math_round x = \<lfloor>x + 1 / 2\<rfloor>"

definition Math_max :: "num \<Rightarrow> num \<Rightarrow> num" where
  "Math_max a b = (if a < b then b else a)"

text \<open>
  The exponent \<open>e\<close> of a number other than zero: \<open>2 ^ e \<le> \<bar>x\<bar> < 2 ^ (e + 1)\<close>.
\<close>

definition binaryExponent :: "num \<Rightarrow> int" where
  "binaryExponent x =
     (if 1 \<le> \<bar>x\<bar> then bitlen \<lfloor>\<bar>x\<bar>\<rfloor> - 1
      else - bitlen (\<lceil>1 / \<bar>x\<bar>\<rceil> - 1))"

definition roundHalfEven :: "num \<Rightarrow> int" where
  "roundHalfEven y =
     (if y - of_int \<lfloor>y\<rfloor> < 1 / 2 then \<lfloor>y\<rfloor>
      else if 1 / 2 < y - of_int \<lfloor>y\<rfloor> then \<lfloor>y\<rfloor> + 1
      else if even \<lfloor>y\<rfloor> then \<lfloor>y\<rfloor> else \<lfloor>y\<rfloor> + 1)"

text \<open>
  The binary64 value nearest to a rational. A double has 53 significant bits, so the
  values around \<open>x\<close> are the multiples of \<open>2 ^ (e - 52)\<close>; below \<open>2 ^ - 1022\<close> they are the
  subnormal multiples of \<open>2 ^ - 1074\<close>.
\<close>

definition toDouble :: "num \<Rightarrow> num" where
  "toDouble x =
     (if x = 0 then 0
      else let quantum = 2 powi (max (binaryExponent x) (- 1022) - 52)
           in sgn x * of_int (roundHalfEven (\<bar>x\<bar> / quantum)) * quantum)"

text \<open>The operator \<^verbatim>\<open>*\<close> on numbers.\<close>

definition mul :: "num \<Rightarrow> num \<Rightarrow> num" where
  "mul a b = toDouble (a * b)"

subsection \<open>Page geometry and rectangles\<close>

record pageDimensions =
  innerWidth :: num
  documentWidth :: num
  bodyWidth :: num
  innerHeight :: num
  documentHeight :: num
  bodyHeight :: num
  dpr :: num

text \<open>
  The rectangle \<^verbatim>\<open>{ top, left, bottom, right }\<close>, in CSS pixels in a request and in
  device pixels once scaled. The fields carry the prefix \<open>crop_\<close> because \<open>top\<close> is a
  constant of HOL.
\<close>

record 'n cropDimensions =
  crop_top :: 'n
  crop_left :: 'n
  crop_bottom :: 'n
  crop_right :: 'n

record clientAreaDimensions =
  width :: int
  height :: int

definition getDimensionWithoutScrollbar :: "num \<Rightarrow> num \<Rightarrow> num \<Rightarrow> num" where
  "getDimensionWithoutScrollbar fullDimension documentDimension bodyDimension =
     (if bodyDimension > fullDimension then documentDimension
      else if documentDimension > fullDimension then bodyDimension
      else Math_max documentDimension bodyDimension)"

definition getCropDimensions ::
  "num cropDimensions option \<Rightarrow> pageDimensions option \<Rightarrow> int cropDimensions option" where
  "getCropDimensions cropDims pageDims =
     (case (cropDims, pageDims) of
        (Some cd, Some pd) \<Rightarrow>
          Some \<lparr> crop_top = Math_round (mul (crop_top cd) (dpr pd)),
                 crop_left = Math_round (mul (crop_left cd) (dpr pd)),
                 crop_bottom = Math_round (mul (crop_bottom cd) (dpr pd)),
                 crop_right = Math_round (mul (crop_right cd) (dpr pd)) \<rparr>
      | _ \<Rightarrow> None)"

definition getClientAreaDimensions :: "pageDimensions option \<Rightarrow> clientAreaDimensions option" where
  "getClientAreaDimensions pageDims =
     (case pageDims of
        None \<Rightarrow> None
      | Some pd \<Rightarrow>
          Some \<lparr> width = Math_floor
                   (mul (getDimensionWithoutScrollbar (innerWidth pd) (documentWidth pd) (bodyWidth pd))
                      (dpr pd)),
                 height = Math_floor
                   (mul (getDimensionWithoutScrollbar (innerHeight pd) (documentHeight pd) (bodyHeight pd))
                      (dpr pd)) \<rparr>)"

subsection \<open>Objects the capturer holds or mutates\<close>

type_synonym bytes = "nat list"

datatype error = TypeError | Rejected string

text \<open>A string-valued expression in a condition: \<^verbatim>\<open>undefined\<close>, \<^verbatim>\<open>null\<close> and \<^verbatim>\<open>''\<close> are falsy.\<close>

definition truthy :: "string option \<Rightarrow> bool" where
  "truthy v = (case v of None \<Rightarrow> False | Some s \<Rightarrow> s \<noteq> [])"

text \<open>The fields of \<^verbatim>\<open>this\<close> that \<^verbatim>\<open>_capture\<close> reads; none is assigned after the constructor.\<close>

record capturer =
  enabled :: bool
  baseScreenshotsPath :: "string option"
  browserId :: string
  fullPage :: bool
  thumbnails :: bool
  tempDirectoryPath :: string
  autoTakeOnFails :: bool

text \<open>
  The constructor. The test entry, the path pattern and the warning log are references to
  mutable objects; they live in the world below. The provider is a collaborator.
\<close>

definition Capturer ::
  "string option \<Rightarrow> string \<Rightarrow> bool \<Rightarrow> bool \<Rightarrow> string \<Rightarrow> bool \<Rightarrow> capturer" where
  "Capturer baseScreenshotsPath' connection_id fullPage' thumbnails' tempDirectoryPath' autoTakeOnFails' =
     \<lparr> enabled = truthy baseScreenshotsPath',
       baseScreenshotsPath = baseScreenshotsPath',
       browserId = connection_id,
       fullPage = fullPage',
       thumbnails = thumbnails',
       tempDirectoryPath = tempDirectoryPath',
       autoTakeOnFails = autoTakeOnFails' \<rparr>"

text \<open>The second argument of \<^verbatim>\<open>_capture\<close>; every property may be absent.\<close>

record captureOptions =
  o_pageDimensions :: "pageDimensions option"
  o_cropDimensions :: "num cropDimensions option"
  o_markSeed :: "bytes option"
  o_customPath :: "string option"
  o_fullPage :: "bool option"
  o_thumbnails :: "bool option"

record parsedUserAgent =
  prettyUserAgent :: string

text \<open>\<^verbatim>\<open>pathPattern.data\<close>\<close>

record pathPatternData =
  fileIndex :: int
  errorFileIndex :: int
  parsedUserAgent :: parsedUserAgent
  quarantineAttempt :: "nat option"

record testRun =
  testRun_id :: string

record screenshot =
  testRunId :: string
  screenshotPath :: string
  screenshotData :: "bytes option"
  thumbnailPath :: string
  userAgent :: string
  s_quarantineAttempt :: "nat option"
  takenOnFail :: bool

record testEntry =
  testRuns :: "string \<rightharpoonup> testRun"
  screenshots :: "screenshot list"

datatype warning_message = screenshotRewritingError

subsection \<open>Collaborators\<close>

text \<open>
  Every call that leaves the class is logged, with its arguments, in the order it is made.
\<close>

datatype 'img call =
    TakeScreenshot string string "int option" "int option" bool
  | Stat string
  | ReadPngFile string
  | CropScreenshot 'img "bytes option" "clientAreaDimensions option" string "int cropDimensions option"
  | WritePng string 'img
  | ReadFile string
  | MakeDir string
  | WriteFile string bytes
  | GenerateThumbnail string string

text \<open>
  The collaborators are parameters of the model. \<open>'x\<close> is the state outside the process
  (the file system and the browser), \<open>'img\<close> a decoded PNG image. A collaborator that
  returns a promise takes the outside state and gives back the state it leaves and either
  the value the promise resolves to or the error it rejects with. \<open>stat\<close> resolves to the
  answer of \<^verbatim>\<open>stats.isFile()\<close>; \<open>cropScreenshot\<close> resolves to \<open>None\<close> when it did not crop.
  \<open>cropScreenshot\<close> takes the properties of its options object in the order
  \<^verbatim>\<open>markSeed, clientAreaDimensions, path, cropDimensions\<close>.
\<close>

record ('x, 'img) env =
  pathPattern_getPath :: "bool \<Rightarrow> pathPatternData \<Rightarrow> string"
  correctFilePath :: "string \<Rightarrow> string \<Rightarrow> string"
  DEFAULT_SCREENSHOT_EXTENSION :: string
  joinPath :: "string list \<Rightarrow> string"
  dirname :: "string \<Rightarrow> string"
  basename :: "string \<Rightarrow> string"
  escapeUserAgent :: "string \<Rightarrow> string"
  provider_takeScreenshot ::
    "string \<Rightarrow> string \<Rightarrow> int option \<Rightarrow> int option \<Rightarrow> bool \<Rightarrow> 'x \<Rightarrow> (error + unit) \<times> 'x"
  stat :: "string \<Rightarrow> 'x \<Rightarrow> (error + bool) \<times> 'x"
  readPngFile :: "string \<Rightarrow> 'x \<Rightarrow> (error + 'img) \<times> 'x"
  cropScreenshot ::
    "'img \<Rightarrow> bytes option \<Rightarrow> clientAreaDimensions option \<Rightarrow> string \<Rightarrow> int cropDimensions option
       \<Rightarrow> 'x \<Rightarrow> (error + 'img option) \<times> 'x"
  writePng :: "string \<Rightarrow> 'img \<Rightarrow> 'x \<Rightarrow> (error + unit) \<times> 'x"
  readFile :: "string \<Rightarrow> 'x \<Rightarrow> (error + bytes) \<times> 'x"
  makeDir :: "string \<Rightarrow> 'x \<Rightarrow> (error + unit) \<times> 'x"
  writeFile :: "string \<Rightarrow> bytes \<Rightarrow> 'x \<Rightarrow> (error + unit) \<times> 'x"
  generateThumbnail :: "string \<Rightarrow> string \<Rightarrow> 'x \<Rightarrow> (error + unit) \<times> 'x"

subsection \<open>The world and computations in it\<close>

text \<open>
  \<open>queue\<close> is the state of the module \<^verbatim>\<open>utils/async-queue\<close>: under each key, the
  operations that are queued or in flight, oldest first, each named by a number.
\<close>

record ('x, 'img) world =
  ext :: 'x
  calls :: "'img call list"
  pathPattern_data :: pathPatternData
  testEntry :: testEntry
  warningLog :: "(warning_message \<times> string) list"
  queue :: "string \<Rightarrow> nat list"

type_synonym ('a, 'x, 'img) io = "('x, 'img) world \<Rightarrow> (error + 'a) \<times> ('x, 'img) world"

definition ret :: "'a \<Rightarrow> ('a, 'x, 'img) io" where
  "ret v = (\<lambda>w. (Inr v, w))"

definition throw :: "error \<Rightarrow> ('a, 'x, 'img) io" where
  "throw e = (\<lambda>w. (Inl e, w))"

text \<open>Sequencing: an error ends the computation and keeps the state reached.\<close>

definition bind :: "('a, 'x, 'img) io \<Rightarrow> ('a \<Rightarrow> ('b, 'x, 'img) io) \<Rightarrow> ('b, 'x, 'img) io" where
  "bind m f = (\<lambda>w. case m w of (Inl e, w') \<Rightarrow> (Inl e, w') | (Inr v, w') \<Rightarrow> f v w')"

definition call :: "'img call \<Rightarrow> ('x \<Rightarrow> (error + 'a) \<times> 'x) \<Rightarrow> ('a, 'x, 'img) io" where
  "call ev f = (\<lambda>w. case f (ext w) of (r, x') \<Rightarrow> (r, w\<lparr> ext := x', calls := calls w @ [ev] \<rparr>))"

text \<open>A synchronous expression that may throw.\<close>

definition lift :: "error + 'a \<Rightarrow> ('a, 'x, 'img) io" where
  "lift r = (\<lambda>w. (r, w))"

subsection \<open>Strings\<close>

text \<open>
  \<^verbatim>\<open>subject.replace(pattern, replacement)\<close> with a string pattern: the first occurrence is
  replaced. The replacement is taken literally (a directory path holds no \<^verbatim>\<open>$\<close> pattern).
\<close>

fun str_replace :: "string \<Rightarrow> string \<Rightarrow> string \<Rightarrow> string" where
  "str_replace [] pat rep = (if pat = [] then rep else [])"
| "str_replace (x # xs) pat rep =
     (if prefix pat (x # xs) then rep @ drop (length pat) (x # xs)
      else x # str_replace xs pat rep)"

text \<open>\<^verbatim>\<open>ToString\<close> of a value that is a string or \<^verbatim>\<open>undefined\<close>.\<close>

definition toString :: "string option \<Rightarrow> string" where
  "toString v = (case v of None \<Rightarrow> ''undefined'' | Some s \<Rightarrow> s)"

subsection \<open>The serializer, as the capturer sees it\<close>

text \<open>
  Modelled from the spec: the module \<^verbatim>\<open>utils/async-queue\<close> is not among the sources. The
  key has a pending or in-flight operation; a new operation is queued behind those of its
  key (section 4.2 of the specification).
\<close>

definition isInQueue :: "(string \<Rightarrow> nat list) \<Rightarrow> string \<Rightarrow> bool" where
  "isInQueue q key = (q key \<noteq> [])"

definition addToQueue :: "(string \<Rightarrow> nat list) \<Rightarrow> string \<Rightarrow> nat \<Rightarrow> (string \<Rightarrow> nat list)" where
  "addToQueue q key n = q(key := q key @ [n])"

subsection \<open>Methods\<close>

definition isScreenshotCaptured :: "('x, 'img) env \<Rightarrow> string \<Rightarrow> (bool, 'x, 'img) io" where
  "isScreenshotCaptured E screenshotPath' =
     (\<lambda>w. case call (Stat screenshotPath') (stat E screenshotPath') w of
             (Inr isFile, w') \<Rightarrow> (Inr isFile, w')
           | (Inl e, w') \<Rightarrow> (Inr False, w'))"

text \<open>\<^verbatim>\<open>path.join\<close> throws a TypeError on an argument that is not a string.\<close>

definition joinWithBaseScreenshotPath :: "('x, 'img) env \<Rightarrow> capturer \<Rightarrow> string \<Rightarrow> error + string" where
  "joinWithBaseScreenshotPath E c path =
     (case baseScreenshotsPath c of
        None \<Rightarrow> Inl TypeError
      | Some base \<Rightarrow> Inr (joinPath E [base, path]))"

definition incrementFileIndexes :: "bool \<Rightarrow> (unit, 'x, 'img) io" where
  "incrementFileIndexes forError =
     (\<lambda>w. (Inr (),
        if forError
        then w\<lparr> pathPattern_data :=
                 (pathPattern_data w)\<lparr> errorFileIndex := errorFileIndex (pathPattern_data w) + 1 \<rparr> \<rparr>
        else w\<lparr> pathPattern_data :=
                 (pathPattern_data w)\<lparr> fileIndex := fileIndex (pathPattern_data w) + 1 \<rparr> \<rparr>))"

definition getCustomScreenshotPath :: "('x, 'img) env \<Rightarrow> capturer \<Rightarrow> string \<Rightarrow> error + string" where
  "getCustomScreenshotPath E c customPath =
     (let correctedCustomPath = correctFilePath E customPath (DEFAULT_SCREENSHOT_EXTENSION E)
      in joinWithBaseScreenshotPath E c correctedCustomPath)"

definition getScreenshotPath :: "('x, 'img) env \<Rightarrow> capturer \<Rightarrow> bool \<Rightarrow> (string, 'x, 'img) io" where
  "getScreenshotPath E c forError =
     (\<lambda>w. let path = pathPattern_getPath E forError (pathPattern_data w)
           in bind (incrementFileIndexes forError)
                (\<lambda>_. lift (joinWithBaseScreenshotPath E c path)) w)"

definition getThumbnailPath :: "('x, 'img) env \<Rightarrow> string \<Rightarrow> string" where
  "getThumbnailPath E screenshotPath' =
     (let imageName = basename E screenshotPath';
          imageDir = dirname E screenshotPath'
      in joinPath E [imageDir, ''thumbnails'', imageName])"

text \<open>The parameter \<^verbatim>\<open>fullPage\<close> defaults to \<^verbatim>\<open>this.fullPage\<close> when it is undefined.\<close>

definition takeScreenshot ::
  "('x, 'img) env \<Rightarrow> capturer \<Rightarrow> string \<Rightarrow> int option \<Rightarrow> int option \<Rightarrow> bool option \<Rightarrow> (unit, 'x, 'img) io" where
  "takeScreenshot E c filePath pageWidth pageHeight fullPage' =
     (let fp = (case fullPage' of None \<Rightarrow> fullPage c | Some b \<Rightarrow> b)
      in call (TakeScreenshot (browserId c) filePath pageWidth pageHeight fp)
           (provider_takeScreenshot E (browserId c) filePath pageWidth pageHeight fp))"

subsection \<open>\<^verbatim>\<open>_capture\<close>\<close>

text \<open>
  The method is given in three parts, in the order of the source: what runs before the
  operation is queued (lines 130 to 138), the operation handed to \<^verbatim>\<open>addToQueue\<close> (lines 141
  to 178), and what runs once the operation has completed (lines 181 to 198).
\<close>

record resolved =
  r_thumbnails :: bool
  r_screenshotPath :: string
  r_thumbnailPath :: string
  r_tempPath :: string

definition addWarning :: "warning_message \<Rightarrow> string \<Rightarrow> (unit, 'x, 'img) io" where
  "addWarning m arg = (\<lambda>w. (Inr (), w\<lparr> warningLog := warningLog w @ [(m, arg)] \<rparr>))"

definition resolve ::
  "('x, 'img) env \<Rightarrow> capturer \<Rightarrow> bool \<Rightarrow> captureOptions \<Rightarrow> (resolved, 'x, 'img) io" where
  "resolve E c forError opts =
     (let thumbnails' = (case o_thumbnails opts of None \<Rightarrow> thumbnails c | Some t \<Rightarrow> t)
      in bind (if truthy (o_customPath opts)
               then lift (getCustomScreenshotPath E c (toString (o_customPath opts)))
               else getScreenshotPath E c forError)
          (\<lambda>screenshotPath'.
             let thumbnailPath' = getThumbnailPath E screenshotPath';
                 tempPath = str_replace screenshotPath' (toString (baseScreenshotsPath c)) (tempDirectoryPath c)
             in bind (\<lambda>w. (if isInQueue (queue w) screenshotPath'
                            then addWarning screenshotRewritingError screenshotPath'
                            else ret ()) w)
                  (\<lambda>_. ret \<lparr> r_thumbnails = thumbnails',
                              r_screenshotPath = screenshotPath',
                              r_thumbnailPath = thumbnailPath',
                              r_tempPath = tempPath \<rparr>)))"

text \<open>
  The operation resolves to the value it leaves in the variable \<^verbatim>\<open>screenshotData\<close>, which
  is undefined until \<^verbatim>\<open>readFile\<close> has resolved.
\<close>

definition pipeline ::
  "('x, 'img) env \<Rightarrow> capturer \<Rightarrow> bool \<Rightarrow> captureOptions \<Rightarrow> resolved \<Rightarrow> (bytes option, 'x, 'img) io" where
  "pipeline E c forError opts r =
     (let clientAreaDimensions = getClientAreaDimensions (o_pageDimensions opts);
          pageWidth = map_option width clientAreaDimensions;
          pageHeight = map_option height clientAreaDimensions
      in
      bind (takeScreenshot E c (r_tempPath r) pageWidth pageHeight (o_fullPage opts)) (\<lambda>_.
      bind (isScreenshotCaptured E (r_tempPath r)) (\<lambda>captured.
      if \<not> captured then ret None
      else
      bind (call (ReadPngFile (r_tempPath r)) (readPngFile E (r_tempPath r))) (\<lambda>image.
      let cropDimensions = getCropDimensions (o_cropDimensions opts) (o_pageDimensions opts) in
      bind (call (CropScreenshot image (o_markSeed opts) clientAreaDimensions (r_tempPath r) cropDimensions)
              (cropScreenshot E image (o_markSeed opts) clientAreaDimensions (r_tempPath r) cropDimensions))
        (\<lambda>croppedImage.
      bind (case croppedImage of
              Some img \<Rightarrow> call (WritePng (r_tempPath r) img) (writePng E (r_tempPath r) img)
            | None \<Rightarrow> ret ()) (\<lambda>_.
      bind (call (ReadFile (r_tempPath r)) (readFile E (r_tempPath r))) (\<lambda>screenshotData'.
      if forError \<and> autoTakeOnFails c then ret (Some screenshotData')
      else
      bind (call (MakeDir (dirname E (r_screenshotPath r))) (makeDir E (dirname E (r_screenshotPath r)))) (\<lambda>_.
      bind (call (WriteFile (r_screenshotPath r) screenshotData')
              (writeFile E (r_screenshotPath r) screenshotData')) (\<lambda>_.
      bind (if r_thumbnails r
            then call (GenerateThumbnail (r_screenshotPath r) (r_thumbnailPath r))
                   (generateThumbnail E (r_screenshotPath r) (r_thumbnailPath r))
            else ret ()) (\<lambda>_.
      ret (Some screenshotData')))))))))))"

text \<open>
  Reading \<^verbatim>\<open>.id\<close> of \<^verbatim>\<open>testRuns[this.browserId]\<close> throws a TypeError when the test entry
  has no run for the browser.
\<close>

definition pushScreenshot ::
  "('x, 'img) env \<Rightarrow> capturer \<Rightarrow> bool \<Rightarrow> resolved \<Rightarrow> bytes option \<Rightarrow> (string option, 'x, 'img) io" where
  "pushScreenshot E c forError r screenshotData' =
     (\<lambda>w. case testRuns (testEntry w) (browserId c) of
             None \<Rightarrow> (Inl TypeError, w)
           | Some run \<Rightarrow>
               let testRunId' = testRun_id run;
                   userAgent' = escapeUserAgent E (prettyUserAgent (parsedUserAgent (pathPattern_data w)));
                   quarantineAttempt' = quarantineAttempt (pathPattern_data w);
                   takenOnFail' = forError;
                   screenshot' = \<lparr> testRunId = testRunId',
                                   screenshotPath = r_screenshotPath r,
                                   screenshotData = screenshotData',
                                   thumbnailPath = r_thumbnailPath r,
                                   userAgent = userAgent',
                                   s_quarantineAttempt = quarantineAttempt',
                                   takenOnFail = takenOnFail' \<rparr>
               in (Inr (Some (r_screenshotPath r)),
                   w\<lparr> testEntry := (testEntry w)\<lparr> screenshots := screenshots (testEntry w) @ [screenshot'] \<rparr> \<rparr>))"

text \<open>
  One invocation run to its end with no other task of the process in between: the
  operation runs when it is queued, and the state of the serializer is as the invocation
  found it. The interleaving of several invocations is the subject of the scheduler below.
  A result \<open>Inr None\<close> is the return value \<^verbatim>\<open>null\<close>; \<open>Inl e\<close> is a rejected promise.
\<close>

definition capture ::
  "('x, 'img) env \<Rightarrow> capturer \<Rightarrow> bool \<Rightarrow> captureOptions \<Rightarrow> (string option, 'x, 'img) io" where
  "capture E c forError opts =
     (if \<not> enabled c then ret None
      else bind (resolve E c forError opts) (\<lambda>r.
           bind (pipeline E c forError opts r) (\<lambda>screenshotData'.
           pushScreenshot E c forError r screenshotData')))"

definition captureAction ::
  "('x, 'img) env \<Rightarrow> capturer \<Rightarrow> captureOptions \<Rightarrow> (string option, 'x, 'img) io" where
  "captureAction E c opts = capture E c False opts"

definition captureError ::
  "('x, 'img) env \<Rightarrow> capturer \<Rightarrow> captureOptions \<Rightarrow> (string option, 'x, 'img) io" where
  "captureError E c opts = capture E c True opts"

text \<open>A sequence of invocations on one capturer, each run to its end, whatever its outcome.\<close>

fun captures ::
  "('x, 'img) env \<Rightarrow> capturer \<Rightarrow> (bool \<times> captureOptions) list \<Rightarrow> ('x, 'img) world \<Rightarrow> ('x, 'img) world" where
  "captures E c [] w = w"
| "captures E c ((forError, opts) # reqs) w = captures E c reqs (snd (capture E c forError opts w))"

subsection \<open>Concurrent invocations\<close>

text \<open>
  Modelled from the spec: the module \<^verbatim>\<open>utils/async-queue\<close> is not among the sources.
  Sections 4.2 and 5: operations queued under one key run strictly one at a time, in the
  order of submission; operations under different keys may overlap; the key is released
  when its operation ends, by failure as by success.

  An invocation of \<^verbatim>\<open>_capture\<close> runs without interruption up to the call of
  \<^verbatim>\<open>addToQueue\<close> (action \<open>Call\<close>), which queues the operation with what it closes over.
  The operation at the head of a key's queue starts when no operation of the key is in
  flight (action \<open>Start\<close>), and ends later (action \<open>Finish\<close>): the key is released and
  the invocation resumes after its \<^verbatim>\<open>await\<close>. What an operation does to the world is
  applied when it ends. \<open>settled\<close> lists the outcomes of the invocations as they settle.
\<close>

record task =
  t_capturer :: capturer
  t_forError :: bool
  t_opts :: captureOptions
  t_resolved :: resolved

datatype event = Enqueued nat string bool | Started nat string | Finished nat string

datatype action = Call capturer bool captureOptions | Start string | Finish string

record ('x, 'img) system =
  world :: "('x, 'img) world"
  tasks :: "task list"
  inFlight :: "string \<Rightarrow> bool"
  trace :: "event list"
  settled :: "(error + string option) list"

definition idle :: "('x, 'img) world \<Rightarrow> ('x, 'img) system" where
  "idle w = \<lparr> world = w, tasks = [], inFlight = (\<lambda>key. False), trace = [], settled = [] \<rparr>"

text \<open>
  Modelled from the spec: one step of the serializer of sections 4.2 and 5, around the
  parts of \<^verbatim>\<open>_capture\<close> given above.
\<close>

definition step :: "('x, 'img) env \<Rightarrow> action \<Rightarrow> ('x, 'img) system \<Rightarrow> ('x, 'img) system option" where
  "step E a s =
     (case a of
        Call c forError opts \<Rightarrow>
          if \<not> enabled c then Some (s\<lparr> settled := settled s @ [Inr None] \<rparr>)
          else (case resolve E c forError opts (world s) of
                  (Inl e, w1) \<Rightarrow> Some (s\<lparr> world := w1, settled := settled s @ [Inl e] \<rparr>)
                | (Inr r, w1) \<Rightarrow>
                    Some (s\<lparr> world := w1\<lparr> queue := addToQueue (queue w1) (r_screenshotPath r) (length (tasks s)) \<rparr>,
                            tasks := tasks s @ [\<lparr> t_capturer = c, t_forError = forError,
                                                  t_opts = opts, t_resolved = r \<rparr>],
                            trace := trace s @ [Enqueued (length (tasks s)) (r_screenshotPath r)
                                                  (isInQueue (queue w1) (r_screenshotPath r))] \<rparr>))
      | Start key \<Rightarrow>
          (case queue (world s) key of
             [] \<Rightarrow> None
           | n # rest \<Rightarrow>
               if inFlight s key then None
               else Some (s\<lparr> inFlight := (inFlight s)(key := True),
                              trace := trace s @ [Started n key] \<rparr>))
      | Finish key \<Rightarrow>
          (case queue (world s) key of
             [] \<Rightarrow> None
           | n # rest \<Rightarrow>
               if \<not> inFlight s key \<or> length (tasks s) \<le> n then None
               else
                 let t = tasks s ! n;
                     (res, w1) = pipeline E (t_capturer t) (t_forError t) (t_opts t) (t_resolved t) (world s);
                     w2 = w1\<lparr> queue := (queue w1)(key := rest) \<rparr>;
                     (out, w3) = (case res of
                                    Inl e \<Rightarrow> (Inl e, w2)
                                  | Inr screenshotData' \<Rightarrow>
                                      pushScreenshot E (t_capturer t) (t_forError t) (t_resolved t)
                                        screenshotData' w2)
                 in Some (s\<lparr> world := w3,
                              inFlight := (inFlight s)(key := False),
                              trace := trace s @ [Finished n key],
                              settled := settled s @ [out] \<rparr>)))"

text \<open>A schedule; \<open>None\<close> when it asks for a start or an end that cannot happen.\<close>

fun exec :: "('x, 'img) env \<Rightarrow> action list \<Rightarrow> ('x, 'img) system \<Rightarrow> ('x, 'img) system option" where
  "exec E [] s = Some s"
| "exec E (a # acts) s = (case step E a s of None \<Rightarrow> None | Some s' \<Rightarrow> exec E acts s')"

text \<open>What a trace says about one key.\<close>

definition enqueued :: "string \<Rightarrow> event list \<Rightarrow> nat list" where
  "enqueued key tr =
     List.map_filter (\<lambda>ev. case ev of Enqueued n k b \<Rightarrow> if k = key then Some n else None | _ \<Rightarrow> None) tr"

definition warned :: "string \<Rightarrow> event list \<Rightarrow> bool list" where
  "warned key tr =
     List.map_filter (\<lambda>ev. case ev of Enqueued n k b \<Rightarrow> if k = key then Some b else None | _ \<Rightarrow> None) tr"

definition started :: "string \<Rightarrow> event list \<Rightarrow> nat list" where
  "started key tr =
     List.map_filter (\<lambda>ev. case ev of Started n k \<Rightarrow> if k = key then Some n else None | _ \<Rightarrow> None) tr"

definition finished :: "string \<Rightarrow> event list \<Rightarrow> nat list" where
  "finished key tr =
     List.map_filter (\<lambda>ev. case ev of Finished n k \<Rightarrow> if k = key then Some n else None | _ \<Rightarrow> None) tr"

definition runs :: "string \<Rightarrow> event list \<Rightarrow> event list" where
  "runs key tr =
     filter (\<lambda>ev. case ev of Started n k \<Rightarrow> k = key | Finished n k \<Rightarrow> k = key | _ \<Rightarrow> False) tr"


text \<open>The invocations of a schedule that advance the counter of a reason.\<close>

definition advances :: "bool \<Rightarrow> action \<Rightarrow> bool" where
  "advances forError a =
     (case a of
        Call c forError' opts \<Rightarrow> enabled c \<and> \<not> truthy (o_customPath opts) \<and> forError' = forError
      | _ \<Rightarrow> False)"



subsection \<open>The path sanitizer\<close>

text \<open>
  Modelled from the spec: the module \<^verbatim>\<open>utils/correct-file-path\<close> and the constant
  \<^verbatim>\<open>DEFAULT_SCREENSHOT_EXTENSION\<close> are not among the sources. Section 4.1: the path is
  sanitized to ensure a valid image extension, which defaults to the system's default
  screenshot extension if absent. The extension the sanitizer knows is the expected one.
\<close>

definition hasExtension :: "string \<Rightarrow> string \<Rightarrow> bool" where
  "hasExtension path extension = suffix (CHR ''.'' # extension) path"

definition correctFilePath_spec :: "string \<Rightarrow> string \<Rightarrow> string" where
  "correctFilePath_spec path expectedExtension =
     (if hasExtension path expectedExtension then path
      else path @ CHR ''.'' # expectedExtension)"

subsection \<open>Notions used in the statements\<close>

text \<open>The calls that make a screenshot visible in the output tree.\<close>

definition publishes :: "'img call \<Rightarrow> bool" where
  "publishes ev =
     (case ev of MakeDir _ \<Rightarrow> True | WriteFile _ _ \<Rightarrow> True | GenerateThumbnail _ _ \<Rightarrow> True | _ \<Rightarrow> False)"

text \<open>
  The paths a call is given to write to: the file the raw capture is to produce, the
  staged file handed to the cropping collaborator, the targets of the writes, the directory
  to create and the thumbnail.
\<close>

definition written :: "'img call \<Rightarrow> string list" where
  "written ev =
     (case ev of
        TakeScreenshot browserId' filePath pageWidth pageHeight fullPage' \<Rightarrow> [filePath]
      | CropScreenshot png seed area p rect \<Rightarrow> [p]
      | WritePng p png \<Rightarrow> [p]
      | MakeDir p \<Rightarrow> [p]
      | WriteFile p b \<Rightarrow> [p]
      | GenerateThumbnail p t \<Rightarrow> [t]
      | _ \<Rightarrow> [])"

text \<open>The raw capture and the check of the staging file.\<close>

definition capture_calls :: "capturer \<Rightarrow> captureOptions \<Rightarrow> resolved \<Rightarrow> 'img call list" where
  "capture_calls c opts r =
     [TakeScreenshot (browserId c) (r_tempPath r)
        (map_option width (getClientAreaDimensions (o_pageDimensions opts)))
        (map_option height (getClientAreaDimensions (o_pageDimensions opts)))
        (case o_fullPage opts of None \<Rightarrow> fullPage c | Some b \<Rightarrow> b),
      Stat (r_tempPath r)]"

text \<open>
  The calls from reading the staged image to reading the final bytes back, for the decoded
  image \<open>png\<close> and the answer \<open>cropped\<close> of the cropping collaborator.
\<close>

definition crop_calls :: "captureOptions \<Rightarrow> resolved \<Rightarrow> 'img \<Rightarrow> 'img option \<Rightarrow> 'img call list" where
  "crop_calls opts r png cropped =
     [ReadPngFile (r_tempPath r),
      CropScreenshot png (o_markSeed opts) (getClientAreaDimensions (o_pageDimensions opts)) (r_tempPath r)
        (getCropDimensions (o_cropDimensions opts) (o_pageDimensions opts))]
     @ (case cropped of Some img \<Rightarrow> [WritePng (r_tempPath r) img] | None \<Rightarrow> [])
     @ [ReadFile (r_tempPath r)]"

definition publish_calls :: "('x, 'img) env \<Rightarrow> resolved \<Rightarrow> bytes \<Rightarrow> 'img call list" where
  "publish_calls E r b =
     [MakeDir (dirname E (r_screenshotPath r)), WriteFile (r_screenshotPath r) b]
     @ (if r_thumbnails r then [GenerateThumbnail (r_screenshotPath r) (r_thumbnailPath r)] else [])"

text \<open>A computation only appends calls that satisfy \<open>P\<close> to the log.\<close>

definition emits :: "('img call \<Rightarrow> bool) \<Rightarrow> ('a, 'x, 'img) io \<Rightarrow> bool" where
  "emits P m = (\<forall>w. \<exists>cs. calls (snd (m w)) = calls w @ cs \<and> list_all P cs)"

text \<open>A computation leaves a part \<open>F\<close> of the world as it is.\<close>

definition keeps :: "(('x, 'img) world \<Rightarrow> 'b) \<Rightarrow> ('a, 'x, 'img) io \<Rightarrow> bool" where
  "keeps F m = (\<forall>w. F (snd (m w)) = F w)"

text \<open>The tail of the operation, from line 174, and its part from line 157.\<close>

definition publish :: "('x, 'img) env \<Rightarrow> resolved \<Rightarrow> bytes \<Rightarrow> (bytes option, 'x, 'img) io" where
  "publish E r b =
      bind (call (MakeDir (dirname E (r_screenshotPath r))) (makeDir E (dirname E (r_screenshotPath r)))) (\<lambda>_.
      bind (call (WriteFile (r_screenshotPath r) b)
              (writeFile E (r_screenshotPath r) b)) (\<lambda>_.
      bind (if r_thumbnails r
            then call (GenerateThumbnail (r_screenshotPath r) (r_thumbnailPath r))
                   (generateThumbnail E (r_screenshotPath r) (r_thumbnailPath r))
            else ret ()) (\<lambda>_.
      ret (Some b))))"

definition staged ::
  "('x, 'img) env \<Rightarrow> capturer \<Rightarrow> bool \<Rightarrow> captureOptions \<Rightarrow> resolved \<Rightarrow> (bytes option, 'x, 'img) io" where
  "staged E c forError opts r =
      bind (call (ReadPngFile (r_tempPath r)) (readPngFile E (r_tempPath r))) (\<lambda>png.
      bind (call (CropScreenshot png (o_markSeed opts) (getClientAreaDimensions (o_pageDimensions opts))
                   (r_tempPath r) (getCropDimensions (o_cropDimensions opts) (o_pageDimensions opts)))
              (cropScreenshot E png (o_markSeed opts) (getClientAreaDimensions (o_pageDimensions opts))
                   (r_tempPath r) (getCropDimensions (o_cropDimensions opts) (o_pageDimensions opts))))
        (\<lambda>croppedImage.
      bind (case croppedImage of
              Some img \<Rightarrow> call (WritePng (r_tempPath r) img) (writePng E (r_tempPath r) img)
            | None \<Rightarrow> ret ()) (\<lambda>_.
      bind (call (ReadFile (r_tempPath r)) (readFile E (r_tempPath r))) (\<lambda>b.
      if forError \<and> autoTakeOnFails c then ret (Some b) else publish E r b))))"

subsection \<open>A concrete setting\<close>

text \<open>
  Collaborators over a file system that maps a path to the bytes of a regular file, with
  an image being its bytes. The browser either writes the staging file, or returns without
  writing it, or fails.
\<close>

datatype browser = Produces | Silent | Crashes

fun joinSegments :: "string list \<Rightarrow> string" where
  "joinSegments [] = ''.''"
| "joinSegments [p] = p"
| "joinSegments (p # ps) = p @ ''/'' @ joinSegments ps"

definition parentOf :: "string \<Rightarrow> string" where
  "parentOf p = rev (tl (dropWhile (\<lambda>ch. ch \<noteq> CHR ''/'') (rev p)))"

definition nameOf :: "string \<Rightarrow> string" where
  "nameOf p = rev (takeWhile (\<lambda>ch. ch \<noteq> CHR ''/'') (rev p))"

definition readBytes :: "string \<Rightarrow> (string \<rightharpoonup> bytes) \<Rightarrow> (error + bytes) \<times> (string \<rightharpoonup> bytes)" where
  "readBytes p x = (case x p of None \<Rightarrow> (Inl (Rejected ''ENOENT''), x) | Some b \<Rightarrow> (Inr b, x))"

definition demo :: "browser \<Rightarrow> (string \<rightharpoonup> bytes, bytes) env" where
  "demo browser =
     \<lparr> pathPattern_getPath = (\<lambda>forError d.
         if forError then ''errors/'' @ replicate (nat (errorFileIndex d)) (CHR ''i'') @ ''.png''
         else replicate (nat (fileIndex d)) (CHR ''i'') @ ''.png''),
       correctFilePath = correctFilePath_spec,
       DEFAULT_SCREENSHOT_EXTENSION = ''png'',
       joinPath = joinSegments,
       dirname = parentOf,
       basename = nameOf,
       escapeUserAgent = map (\<lambda>ch. if ch = CHR '' '' then CHR ''_'' else ch),
       provider_takeScreenshot = (\<lambda>browserId' filePath pageWidth pageHeight fullPage' x.
         case browser of
           Produces \<Rightarrow> (Inr (), x(filePath \<mapsto> [1, 2, 3]))
         | Silent \<Rightarrow> (Inr (), x)
         | Crashes \<Rightarrow> (Inl (Rejected ''browser disconnected''), x)),
       stat = (\<lambda>p x. case x p of None \<Rightarrow> (Inl (Rejected ''ENOENT''), x) | Some b \<Rightarrow> (Inr True, x)),
       readPngFile = readBytes,
       cropScreenshot = (\<lambda>png markSeed clientArea p cropDims x.
         (Inr (if markSeed = None \<and> cropDims = None then None else Some (0 # png)), x)),
       writePng = (\<lambda>p png x. (Inr (), x(p \<mapsto> png))),
       readFile = readBytes,
       makeDir = (\<lambda>p x. (Inr (), x)),
       writeFile = (\<lambda>p b x. (Inr (), x(p \<mapsto> b))),
       generateThumbnail = (\<lambda>p t x. (Inr (), x(t \<mapsto> [])))\<rparr>"

definition world0 :: "(string \<rightharpoonup> bytes, bytes) world" where
  "world0 =
     \<lparr> ext = Map.empty,
       calls = [],
       pathPattern_data = \<lparr> fileIndex = 1, errorFileIndex = 1,
                            parsedUserAgent = \<lparr> prettyUserAgent = ''Chrome 120'' \<rparr>,
                            quarantineAttempt = None \<rparr>,
       testEntry = \<lparr> testRuns = [''b1'' \<mapsto> \<lparr> testRun_id = ''run1'' \<rparr>], screenshots = [] \<rparr>,
       warningLog = [],
       queue = (\<lambda>key. []) \<rparr>"

definition capturer0 :: capturer where
  "capturer0 = Capturer (Some ''/out'') ''b1'' False True ''/tmp'' True"

text \<open>
  The same collaborators with a \<^verbatim>\<open>path.join\<close> that normalizes its result as far as dropping
  a leading \<^verbatim>\<open>./\<close>, and a capturer whose base output directory is written with one.
\<close>

definition stripDot :: "string \<Rightarrow> string" where
  "stripDot p = (if prefix ''./'' p then drop 2 p else p)"

definition relative :: "browser \<Rightarrow> (string \<rightharpoonup> bytes, bytes) env" where
  "relative browser = (demo browser)\<lparr> joinPath := (\<lambda>segments. stripDot (joinSegments segments)) \<rparr>"

definition capturer1 :: capturer where
  "capturer1 = Capturer (Some ''./out'') ''b1'' False True ''/tmp'' True"

definition noOptions :: captureOptions where
  "noOptions = \<lparr> o_pageDimensions = None, o_cropDimensions = None, o_markSeed = None,
                 o_customPath = None, o_fullPage = None, o_thumbnails = None \<rparr>"

text \<open>The double nearest to 0.7, a page geometry with it, and a crop rectangle.\<close>

definition dpr0 :: num where
  "dpr0 = 3152519739159347 / 4503599627370496"

definition geometry0 :: pageDimensions where
  "geometry0 = \<lparr> innerWidth = 990, documentWidth = 1000, bodyWidth = 1200,
                 innerHeight = 9, documentHeight = 10, bodyHeight = 12, dpr = dpr0 \<rparr>"

definition rectangle0 :: "num cropDimensions" where
  "rectangle0 = \<lparr> crop_top = 5, crop_left = 3, crop_bottom = 10, crop_right = 15 \<rparr>"

definition croppedOptions :: captureOptions where
  "croppedOptions = noOptions\<lparr> o_pageDimensions := Some geometry0, o_cropDimensions := Some rectangle0 \<rparr>"

definition seededOptions :: captureOptions where
  "seededOptions = noOptions\<lparr> o_markSeed := Some [7] \<rparr>"

definition resolved0 :: resolved where
  "resolved0 = \<lparr> r_thumbnails = True, r_screenshotPath = ''/out/i.png'',
                 r_thumbnailPath = ''/out/thumbnails/i.png'', r_tempPath = ''/tmp/i.png'' \<rparr>"

definition optionsA :: captureOptions where
  "optionsA = noOptions\<lparr> o_customPath := Some ''a'' \<rparr>"

definition optionsB :: captureOptions where
  "optionsB = noOptions\<lparr> o_customPath := Some ''b'' \<rparr>"

text \<open>The world after a capture to the explicit path \<^verbatim>\<open>a\<close> by a browser that produced its file.\<close>

definition world1 :: "(string \<rightharpoonup> bytes, bytes) world" where
  "world1 = snd (capture (demo Produces) capturer0 False optionsA world0)"

text \<open>
  Three invocations for one path and one for another, all submitted before any operation
  ends; then the rest of the schedule, which drains both queues.
\<close>

definition submitted :: "action list" where
  "submitted =
     [Call capturer0 False optionsA, Call capturer0 False optionsA, Call capturer0 False optionsB,
      Call capturer0 False optionsA, Start ''/out/a.png'', Start ''/out/b.png'', Finish ''/out/b.png'']"

definition drained :: "action list" where
  "drained =
     submitted @ [Finish ''/out/a.png'', Start ''/out/a.png'', Finish ''/out/a.png'',
                  Start ''/out/a.png'', Finish ''/out/a.png'']"

text \<open>Two action captures and one failure capture by pattern, interleaved.\<close>

definition interleaved :: "action list" where
  "interleaved =
     [Call capturer0 False noOptions, Call capturer0 True noOptions, Start ''/out/errors/i.png'',
      Call capturer0 False noOptions, Start ''/out/ii.png'', Finish ''/out/errors/i.png'',
      Start ''/out/i.png'', Finish ''/out/ii.png'', Finish ''/out/i.png'']"

section \<open>Properties\<close>

subsection \<open>Arithmetic\<close>

lemma floor_rat_divide_numeral [simp]:
  "\<lfloor>(numeral a / numeral b :: rat)\<rfloor> = numeral a div numeral b"
  using floor_divide_of_int_eq [of "numeral a" "numeral b", where ?'a = rat] by simp

lemma floor_rat_divide_neg_numeral [simp]:
  "\<lfloor>(- (numeral a / numeral b) :: rat)\<rfloor> = - numeral a div numeral b"
  using floor_divide_of_int_eq [of "- numeral a" "numeral b", where ?'a = rat] by simp

lemma Math_round_round: "Math_round x = round x"
  by (simp add: Math_round_def round_def)

text \<open>The rounding of products: the exponent is right, and the result is nearest.\<close>

lemma roundHalfEven_nearest: "\<bar>of_int (roundHalfEven y) - y\<bar> \<le> 1 / 2"
  unfolding roundHalfEven_def by (auto simp: abs_if) linarith+

lemma binaryExponent_bounds:
  assumes "x \<noteq> 0"
  shows "2 powi binaryExponent x \<le> \<bar>x\<bar> \<and> \<bar>x\<bar> < 2 powi (binaryExponent x + 1)"
proof (cases "1 \<le> \<bar>x\<bar>")
  case True
  define n where "n = \<lfloor>\<bar>x\<bar>\<rfloor>"
  have n: "1 \<le> n" "of_int n \<le> \<bar>x\<bar>" "\<bar>x\<bar> < of_int (n + 1)"
    using True unfolding n_def by linarith+
  then have "0 < n" by simp
  from bitlen_bounds [OF this] have b: "2 ^ nat (bitlen n - 1) \<le> n" "n + 1 \<le> 2 ^ nat (bitlen n)"
    by simp_all
  have p: "1 \<le> bitlen n" using \<open>0 < n\<close> by (simp add: bitlen_def floorlog_def)
  have e: "binaryExponent x = bitlen n - 1"
    using True by (simp add: binaryExponent_def n_def)
  have "(2::rat) powi (bitlen n - 1) = of_int (2 ^ nat (bitlen n - 1))"
    using p by (simp add: power_int_def)
  also have "\<dots> \<le> of_int n" using b(1) by (simp only: of_int_le_iff)
  finally have lo: "(2::rat) powi (bitlen n - 1) \<le> \<bar>x\<bar>" using n(2) by simp
  have "\<bar>x\<bar> < of_int (n + 1)" by (fact n(3))
  also have "\<dots> \<le> of_int (2 ^ nat (bitlen n))" using b(2) by (simp only: of_int_le_iff)
  also have "\<dots> = (2::rat) powi (bitlen n - 1 + 1)" using p by (simp add: power_int_def)
  finally have "\<bar>x\<bar> < (2::rat) powi (bitlen n - 1 + 1)" .
  with lo e show ?thesis by simp
next
  case False
  define y where "y = 1 / \<bar>x\<bar>"
  define m where "m = \<lceil>y\<rceil>"
  have x: "0 < \<bar>x\<bar>" "\<bar>x\<bar> < 1" using assms False by simp_all
  then have y: "1 < y" by (simp add: y_def)
  have m: "y \<le> of_int m" "of_int (m - 1) < y"
    unfolding m_def by linarith+
  from y m(1) have "1 < (of_int m :: rat)" by simp
  then have "1 < m" by simp
  then have "0 < m - 1" by simp
  from bitlen_bounds [OF this] have b: "2 ^ nat (bitlen (m - 1) - 1) \<le> m - 1" "m \<le> 2 ^ nat (bitlen (m - 1))"
    by simp_all
  define k where "k = bitlen (m - 1)"
  have p: "1 \<le> k" using \<open>0 < m - 1\<close> by (simp add: k_def bitlen_def floorlog_def)
  have e: "binaryExponent x = - k"
    using False by (simp add: binaryExponent_def k_def m_def y_def)
  have "y \<le> of_int (2 ^ nat k)"
    using m(1) b(2) unfolding k_def by (meson of_int_le_iff order_trans)
  then have "y \<le> 2 ^ nat k" by simp
  then have "1 / 2 ^ nat k \<le> \<bar>x\<bar>"
    using x(1) unfolding y_def by (simp add: field_simps)
  moreover have "(2::rat) powi (- k) = 1 / 2 ^ nat k"
    using p by (simp add: power_int_def field_simps)
  ultimately have lo: "(2::rat) powi (- k) \<le> \<bar>x\<bar>" by simp
  have "of_int (2 ^ nat (k - 1)) < y"
    using m(2) b(1) unfolding k_def by (meson of_int_le_iff order_le_less_trans)
  then have "2 ^ nat (k - 1) < y" by simp
  then have "\<bar>x\<bar> < 1 / 2 ^ nat (k - 1)"
    using x(1) unfolding y_def by (simp add: field_simps)
  moreover have "(2::rat) powi (- k + 1) = 1 / 2 ^ nat (k - 1)"
  proof (cases "k = 1")
    case True
    then show ?thesis by simp
  next
    case False
    with p have "- k + 1 < 0" "nat (k - 1) = nat (- (- k + 1))" by simp_all
    then show ?thesis by (simp add: power_int_def field_simps)
  qed
  ultimately have "\<bar>x\<bar> < (2::rat) powi (- k + 1)" by simp
  with lo e show ?thesis by simp
qed

lemma toDouble_nearest:
  assumes "x \<noteq> 0"
  shows "\<bar>toDouble x - x\<bar> \<le> 2 powi (max (binaryExponent x) (- 1022) - 52) / 2"
proof -
  define q :: rat where "q = 2 powi (max (binaryExponent x) (- 1022) - 52)"
  have q: "0 < q" by (simp add: q_def)
  define r where "r = roundHalfEven (\<bar>x\<bar> / q)"
  have t: "toDouble x = sgn x * of_int r * q"
    using assms by (simp add: toDouble_def Let_def q_def r_def)
  have "\<bar>toDouble x - x\<bar> = \<bar>of_int r * q - \<bar>x\<bar>\<bar>"
  proof (cases "0 < x")
    case True
    then show ?thesis by (simp add: t)
  next
    case False
    with assms have "x < 0" by simp
    then have "toDouble x - x = - (of_int r * q - \<bar>x\<bar>)" by (simp add: t)
    then show ?thesis by (simp only: abs_minus_cancel)
  qed
  also have "of_int r * q - \<bar>x\<bar> = (of_int r - \<bar>x\<bar> / q) * q"
    using q by (simp add: field_simps)
  also have "\<bar>(of_int r - \<bar>x\<bar> / q) * q\<bar> = \<bar>of_int r - \<bar>x\<bar> / q\<bar> * q"
    using q by (simp add: abs_mult)
  also have "\<dots> \<le> 1 / 2 * q"
    using roundHalfEven_nearest [of "\<bar>x\<bar> / q"] q unfolding r_def by (intro mult_right_mono) simp_all
  finally show ?thesis by (simp add: q_def)
qed

lemma mul_commute: "mul a b = mul b a"
  by (simp add: mul_def mult.commute)

subsection \<open>Rules for computations\<close>

lemma bind_cases:
  assumes "bind m f w = (res, w')"
  obtains (fails) e where "m w = (Inl e, w')" and "res = Inl e"
    | (goes) u w1 where "m w = (Inr u, w1)" and "f u w1 = (res, w')"
  using assms by (auto simp: bind_def split: prod.splits sum.splits)

lemma bind_returns:
  assumes "bind m f w = (Inr v, w')"
  obtains u w1 where "m w = (Inr u, w1)" and "f u w1 = (Inr v, w')"
  using assms by (auto simp: bind_def split: prod.splits sum.splits)

lemma call_cases:
  assumes "call ev f w = (res, w')"
  obtains x' where "f (ext w) = (res, x')" and "w' = w\<lparr> ext := x', calls := calls w @ [ev] \<rparr>"
  using assms by (auto simp: call_def split: prod.splits)

lemma emits_ret: "emits P (ret v)"
  by (simp add: emits_def ret_def)

lemma emits_lift: "emits P (lift r)"
  by (simp add: emits_def lift_def)

lemma emits_call: "P ev \<Longrightarrow> emits P (call ev f)"
  by (simp add: emits_def call_def split: prod.splits)

lemma emits_bind:
  assumes "emits P m" and "\<And>v. emits P (f v)"
  shows "emits P (bind m f)"
proof -
  have "\<exists>cs. calls (snd (bind m f w)) = calls w @ cs \<and> list_all P cs" for w
  proof (cases "m w")
    case (Pair r w1)
    from assms(1) obtain cs1 where m: "calls w1 = calls w @ cs1" "list_all P cs1"
      using Pair unfolding emits_def by (metis snd_conv)
    show ?thesis
    proof (cases r)
      case (Inl e)
      then show ?thesis using Pair m by (simp add: bind_def)
    next
      case (Inr v)
      from assms(2) [of v] obtain cs2
        where f: "calls (snd (f v w1)) = calls w1 @ cs2" "list_all P cs2"
        unfolding emits_def by blast
      have "bind m f w = f v w1" using Pair Inr by (simp add: bind_def)
      then show ?thesis using m f by simp
    qed
  qed
  then show ?thesis unfolding emits_def by blast
qed

lemma emits_if: "(b \<Longrightarrow> emits P m) \<Longrightarrow> (\<not> b \<Longrightarrow> emits P n) \<Longrightarrow> emits P (if b then m else n)"
  by simp

lemma emits_case_option:
  "emits P m \<Longrightarrow> (\<And>v. emits P (f v)) \<Longrightarrow> emits P (case x of None \<Rightarrow> m | Some v \<Rightarrow> f v)"
  by (cases x) simp_all

lemma emits_isScreenshotCaptured: "P (Stat p) \<Longrightarrow> emits P (isScreenshotCaptured E p)"
  by (auto simp: emits_def isScreenshotCaptured_def call_def split: prod.splits sum.splits)

lemma emits_takeScreenshot:
  "(\<And>fp. P (TakeScreenshot (browserId c) p pw ph fp)) \<Longrightarrow> emits P (takeScreenshot E c p pw ph f)"
  by (simp add: takeScreenshot_def Let_def emits_call)

lemma emits_calls:
  assumes "emits P m" and "m w = (res, w')"
  obtains cs where "calls w' = calls w @ cs" and "list_all P cs"
  using assms unfolding emits_def by (metis snd_conv)

lemma keeps_ret: "keeps F (ret v)"
  by (simp add: keeps_def ret_def)

lemma keeps_lift: "keeps F (lift r)"
  by (simp add: keeps_def lift_def)

lemma keeps_call: "(\<And>w x cs. F (w\<lparr> ext := x, calls := cs \<rparr>) = F w) \<Longrightarrow> keeps F (call ev f)"
  by (simp add: keeps_def call_def split: prod.splits)

lemma keeps_bind:
  assumes "keeps F m" and "\<And>v. keeps F (f v)"
  shows "keeps F (bind m f)"
proof -
  have "F (snd (bind m f w)) = F w" for w
  proof (cases "m w")
    case (Pair r w1)
    with assms(1) have m: "F w1 = F w"
      unfolding keeps_def by (metis snd_conv)
    show ?thesis
    proof (cases r)
      case (Inl e)
      then show ?thesis using Pair m by (simp add: bind_def)
    next
      case (Inr v)
      have "bind m f w = f v w1" using Pair Inr by (simp add: bind_def)
      with assms(2) [of v] m show ?thesis by (simp add: keeps_def)
    qed
  qed
  then show ?thesis unfolding keeps_def by blast
qed

lemma keeps_if: "(b \<Longrightarrow> keeps F m) \<Longrightarrow> (\<not> b \<Longrightarrow> keeps F n) \<Longrightarrow> keeps F (if b then m else n)"
  by simp

lemma keeps_case_option:
  "keeps F m \<Longrightarrow> (\<And>v. keeps F (f v)) \<Longrightarrow> keeps F (case x of None \<Rightarrow> m | Some v \<Rightarrow> f v)"
  by (cases x) simp_all

lemma keeps_isScreenshotCaptured:
  "(\<And>w x cs. F (w\<lparr> ext := x, calls := cs \<rparr>) = F w) \<Longrightarrow> keeps F (isScreenshotCaptured E p)"
  by (auto simp: keeps_def isScreenshotCaptured_def call_def split: prod.splits sum.splits)

lemma keeps_takeScreenshot:
  "(\<And>w x cs. F (w\<lparr> ext := x, calls := cs \<rparr>) = F w) \<Longrightarrow> keeps F (takeScreenshot E c p pw ph f)"
  by (simp add: takeScreenshot_def Let_def keeps_call)

lemma keepsD: "keeps F m \<Longrightarrow> m w = (res, w') \<Longrightarrow> F w' = F w"
  unfolding keeps_def by (metis snd_conv)

subsection \<open>The queued operation\<close>

lemma pipeline_stages:
  "pipeline E c forError opts r =
     bind (takeScreenshot E c (r_tempPath r)
             (map_option width (getClientAreaDimensions (o_pageDimensions opts)))
             (map_option height (getClientAreaDimensions (o_pageDimensions opts))) (o_fullPage opts)) (\<lambda>_.
     bind (isScreenshotCaptured E (r_tempPath r)) (\<lambda>captured.
     if \<not> captured then ret None else staged E c forError opts r))"
  by (simp only: pipeline_def staged_def publish_def Let_def)

lemma emits_pipeline:
  assumes "\<And>fp. P (TakeScreenshot (browserId c) (r_tempPath r)
              (map_option width (getClientAreaDimensions (o_pageDimensions opts)))
              (map_option height (getClientAreaDimensions (o_pageDimensions opts))) fp)"
    and "P (Stat (r_tempPath r))" and "P (ReadPngFile (r_tempPath r))"
    and "\<And>png. P (CropScreenshot png (o_markSeed opts) (getClientAreaDimensions (o_pageDimensions opts))
              (r_tempPath r) (getCropDimensions (o_cropDimensions opts) (o_pageDimensions opts)))"
    and "\<And>png. P (WritePng (r_tempPath r) png)" and "P (ReadFile (r_tempPath r))"
    and "\<not> (forError \<and> autoTakeOnFails c) \<Longrightarrow> P (MakeDir (dirname E (r_screenshotPath r)))"
    and "\<And>b. \<not> (forError \<and> autoTakeOnFails c) \<Longrightarrow> P (WriteFile (r_screenshotPath r) b)"
    and "\<not> (forError \<and> autoTakeOnFails c) \<Longrightarrow> P (GenerateThumbnail (r_screenshotPath r) (r_thumbnailPath r))"
  shows "emits P (pipeline E c forError opts r)"
  unfolding pipeline_def Let_def
  by (intro emits_bind emits_if emits_case_option emits_ret emits_call emits_isScreenshotCaptured
        emits_takeScreenshot assms)

lemma keeps_pipeline:
  assumes "\<And>w x cs. F (w\<lparr> ext := x, calls := cs \<rparr>) = F w"
  shows "keeps F (pipeline E c forError opts r)"
  unfolding pipeline_def Let_def
  by (intro keeps_bind keeps_if keeps_case_option keeps_ret keeps_call keeps_isScreenshotCaptured
        keeps_takeScreenshot assms)

lemma tail_extends:
  assumes "(if forError \<and> autoTakeOnFails c then ret (Some b) else publish E r b) w = (res, w')"
  shows "\<exists>post. calls w' = calls w @ post"
proof -
  have "emits (\<lambda>_. True) (if forError \<and> autoTakeOnFails c then ret (Some b) else publish E r b)"
    by (intro emits_if emits_ret) (simp add: publish_def emits_bind emits_call emits_if emits_ret)
  from emits_calls [OF this assms] show ?thesis by blast
qed

lemma overwrite_cases:
  assumes "(case cropped of Some img \<Rightarrow> call (WritePng p img) (f img) | None \<Rightarrow> ret ()) w = (res, w')"
  shows "calls w' = calls w @ (case cropped of Some img \<Rightarrow> [WritePng p img] | None \<Rightarrow> [])"
  using assms by (cases cropped) (auto simp: ret_def elim!: call_cases)

lemma publish_returns:
  assumes "publish E r b w = (Inr d, w')"
  shows "d = Some b \<and> calls w' = calls w @ publish_calls E r b"
  using assms unfolding publish_def publish_calls_def
  by (elim bind_returns call_cases) (auto simp: ret_def split: if_splits elim!: call_cases)

lemma staged_shape:
  assumes "staged E c forError opts r w = (res, w')"
  shows "\<exists>cs. calls w' = calls w @ cs
          \<and> (ReadFile (r_tempPath r) \<in> set cs \<longrightarrow>
               (\<exists>png cropped x1 x2 post.
                  cropScreenshot E png (o_markSeed opts) (getClientAreaDimensions (o_pageDimensions opts))
                    (r_tempPath r) (getCropDimensions (o_cropDimensions opts) (o_pageDimensions opts)) x1
                    = (Inr cropped, x2)
                \<and> cs = crop_calls opts r png cropped @ post))"
  using assms [unfolded staged_def]
proof (cases rule: bind_cases)
  case (fails e)
  then have "calls w' = calls w @ [ReadPngFile (r_tempPath r)]"
    by (auto elim: call_cases)
  then show ?thesis by simp
next
  case (goes png w1)
  from goes(1) have c1: "calls w1 = calls w @ [ReadPngFile (r_tempPath r)]"
    by (auto elim: call_cases)
  from goes(2) show ?thesis
  proof (cases rule: bind_cases)
    case (fails e)
    then have "calls w' = calls w1 @ [CropScreenshot png (o_markSeed opts)
        (getClientAreaDimensions (o_pageDimensions opts)) (r_tempPath r)
        (getCropDimensions (o_cropDimensions opts) (o_pageDimensions opts))]"
      by (auto elim: call_cases)
    with c1 show ?thesis by simp
  next
    case (goes cropped w2)
    from goes(1) obtain x2
      where crop: "cropScreenshot E png (o_markSeed opts) (getClientAreaDimensions (o_pageDimensions opts))
                    (r_tempPath r) (getCropDimensions (o_cropDimensions opts) (o_pageDimensions opts)) (ext w1)
                    = (Inr cropped, x2)"
        and c2: "calls w2 = calls w1 @ [CropScreenshot png (o_markSeed opts)
                   (getClientAreaDimensions (o_pageDimensions opts)) (r_tempPath r)
                   (getCropDimensions (o_cropDimensions opts) (o_pageDimensions opts))]"
      by (auto elim: call_cases)
    from goes(2) show ?thesis
    proof (cases rule: bind_cases)
      case (fails e)
      from overwrite_cases [OF fails(1)] c1 c2 show ?thesis
        by (cases cropped) simp_all
    next
      case (goes u w3)
      from overwrite_cases [OF goes(1)] c1 c2
      have c3: "calls w3 @ [ReadFile (r_tempPath r)] = calls w @ crop_calls opts r png cropped"
        by (simp add: crop_calls_def)
      from goes(2) show ?thesis
      proof (cases rule: bind_cases)
        case (fails e)
        then have "calls w' = calls w3 @ [ReadFile (r_tempPath r)]"
          by (auto elim: call_cases)
        with c3 have "calls w' = calls w @ crop_calls opts r png cropped @ []"
          by simp
        with crop show ?thesis by blast
      next
        case (goes b w4)
        from goes(1) have "calls w4 = calls w3 @ [ReadFile (r_tempPath r)]"
          by (auto elim: call_cases)
        moreover from tail_extends [OF goes(2)] obtain post where "calls w' = calls w4 @ post" ..
        ultimately have "calls w' = calls w @ crop_calls opts r png cropped @ post"
          using c3 by simp
        with crop show ?thesis by blast
      qed
    qed
  qed
qed

lemma staged_returns:
  assumes "staged E c forError opts r w = (Inr d, w')"
  shows "\<exists>png cropped b x3 x4.
            readFile E (r_tempPath r) x3 = (Inr b, x4)
          \<and> d = Some b
          \<and> (forError \<and> autoTakeOnFails c \<longrightarrow> ext w' = x4)
          \<and> calls w' = calls w @ crop_calls opts r png cropped
                @ (if forError \<and> autoTakeOnFails c then [] else publish_calls E r b)"
  using assms [unfolded staged_def]
proof (cases rule: bind_cases)
  case (fails e)
  then show ?thesis by simp
next
  case (goes png w1)
  from goes(1) have c1: "calls w1 = calls w @ [ReadPngFile (r_tempPath r)]"
    by (auto elim: call_cases)
  from goes(2) show ?thesis
  proof (cases rule: bind_cases)
    case (fails e)
    then show ?thesis by simp
  next
    case (goes cropped w2)
    from goes(1) have c2: "calls w2 = calls w1 @ [CropScreenshot png (o_markSeed opts)
                   (getClientAreaDimensions (o_pageDimensions opts)) (r_tempPath r)
                   (getCropDimensions (o_cropDimensions opts) (o_pageDimensions opts))]"
      by (auto elim: call_cases)
    from goes(2) show ?thesis
    proof (cases rule: bind_cases)
      case (fails e)
      then show ?thesis by simp
    next
      case (goes u w3)
      from overwrite_cases [OF goes(1)] c1 c2
      have c3: "calls w3 @ [ReadFile (r_tempPath r)] = calls w @ crop_calls opts r png cropped"
        by (simp add: crop_calls_def)
      from goes(2) show ?thesis
      proof (cases rule: bind_cases)
        case (fails e)
        then show ?thesis by simp
      next
        case (goes b w4)
        from goes(1) obtain x4 where rd: "readFile E (r_tempPath r) (ext w3) = (Inr b, x4)"
          and w4: "ext w4 = x4" "calls w4 = calls w3 @ [ReadFile (r_tempPath r)]"
          by (auto elim: call_cases)
        have c4: "calls w4 = calls w @ crop_calls opts r png cropped"
          using c3 w4 by simp
        show ?thesis
        proof (cases "forError \<and> autoTakeOnFails c")
          case True
          with goes(2) have "d = Some b" "w' = w4" by (auto simp: ret_def)
          with True c4 rd w4 show ?thesis by (intro exI conjI) auto
        next
          case False
          with goes(2) have "publish E r b w4 = (Inr d, w')" by simp
          from publish_returns [OF this] False c4 rd show ?thesis by (intro exI conjI) auto
        qed
      qed
    qed
  qed
qed

lemma capture_stage_calls:
  assumes "takeScreenshot E c (r_tempPath r)
             (map_option width (getClientAreaDimensions (o_pageDimensions opts)))
             (map_option height (getClientAreaDimensions (o_pageDimensions opts))) (o_fullPage opts) w = (Inr u, w1)"
    and "isScreenshotCaptured E (r_tempPath r) w1 = (res, w2)"
  shows "calls w2 = calls w @ capture_calls c opts r"
  using assms
  by (auto simp: takeScreenshot_def isScreenshotCaptured_def capture_calls_def Let_def call_def
      split: prod.splits sum.splits)

lemma pipeline_returns:
  assumes "pipeline E c forError opts r w = (Inr d, w')"
  shows "(d = None \<and> calls w' = calls w @ capture_calls c opts r)
       \<or> (\<exists>png cropped b x3 x4.
            readFile E (r_tempPath r) x3 = (Inr b, x4)
          \<and> d = Some b
          \<and> (forError \<and> autoTakeOnFails c \<longrightarrow> ext w' = x4)
          \<and> calls w' = calls w @ capture_calls c opts r @ crop_calls opts r png cropped
                @ (if forError \<and> autoTakeOnFails c then [] else publish_calls E r b))"
proof -
  from assms [unfolded pipeline_stages] obtain u w1 captured w2
    where t: "takeScreenshot E c (r_tempPath r)
             (map_option width (getClientAreaDimensions (o_pageDimensions opts)))
             (map_option height (getClientAreaDimensions (o_pageDimensions opts))) (o_fullPage opts) w = (Inr u, w1)"
      and s: "isScreenshotCaptured E (r_tempPath r) w1 = (Inr captured, w2)"
      and rest: "(if \<not> captured then ret None else staged E c forError opts r) w2 = (Inr d, w')"
    by (elim bind_returns)
  note c2 = capture_stage_calls [OF t s]
  show ?thesis
  proof (cases captured)
    case False
    with rest c2 show ?thesis by (simp add: ret_def)
  next
    case True
    with rest have "staged E c forError opts r w2 = (Inr d, w')" by simp
    from staged_returns [OF this] c2 show ?thesis by force
  qed
qed

lemma pipeline_shape:
  assumes "pipeline E c forError opts r w = (res, w')"
  shows "\<exists>cs. calls w' = calls w @ cs
          \<and> (ReadFile (r_tempPath r) \<in> set cs \<longrightarrow>
               (\<exists>png cropped x1 x2 post.
                  cropScreenshot E png (o_markSeed opts) (getClientAreaDimensions (o_pageDimensions opts))
                    (r_tempPath r) (getCropDimensions (o_cropDimensions opts) (o_pageDimensions opts)) x1
                    = (Inr cropped, x2)
                \<and> cs = capture_calls c opts r @ crop_calls opts r png cropped @ post))"
  using assms [unfolded pipeline_stages]
proof (cases rule: bind_cases)
  case (fails e)
  then have "calls w' = calls w @ [hd (capture_calls c opts r)]"
    by (auto simp: takeScreenshot_def capture_calls_def Let_def elim: call_cases)
  then show ?thesis by (simp add: capture_calls_def)
next
  case (goes u w1)
  from goes(2) show ?thesis
  proof (cases rule: bind_cases)
    case (fails e)
    from capture_stage_calls [OF goes(1) fails(1)] show ?thesis
      by (simp add: capture_calls_def)
  next
    case inner: (goes captured w2)
    note c2 = capture_stage_calls [OF goes(1) inner(1)]
    show ?thesis
    proof (cases captured)
      case False
      with inner(2) c2 show ?thesis by (simp add: ret_def capture_calls_def)
    next
      case True
      with inner(2) have "staged E c forError opts r w2 = (res, w')" by simp
      from staged_shape [OF this] obtain cs
        where cs: "calls w' = calls w2 @ cs"
          and sh: "ReadFile (r_tempPath r) \<in> set cs \<longrightarrow>
               (\<exists>png cropped x1 x2 post.
                  cropScreenshot E png (o_markSeed opts) (getClientAreaDimensions (o_pageDimensions opts))
                    (r_tempPath r) (getCropDimensions (o_cropDimensions opts) (o_pageDimensions opts)) x1
                    = (Inr cropped, x2)
                \<and> cs = crop_calls opts r png cropped @ post)"
        by blast
      have "ReadFile (r_tempPath r) \<in> set (capture_calls c opts r @ cs) \<longleftrightarrow> ReadFile (r_tempPath r) \<in> set cs"
        by (simp add: capture_calls_def)
      with cs c2 sh show ?thesis by auto
    qed
  qed
qed

subsection \<open>Resolution and the ledger\<close>

lemma resolve_frame:
  assumes "resolve E c forError opts w = (res, w1)"
  shows "ext w1 = ext w \<and> calls w1 = calls w \<and> testEntry w1 = testEntry w \<and> queue w1 = queue w"
  using assms
  by (auto simp: resolve_def Let_def bind_def lift_def ret_def getScreenshotPath_def
        incrementFileIndexes_def addWarning_def split: if_splits sum.splits prod.splits)

lemma resolve_pattern_path:
  assumes "\<not> truthy (o_customPath opts)" and "resolve E c forError opts w = (res, w1)"
  shows "pathPattern_data w1 =
           (if forError
            then (pathPattern_data w)\<lparr> errorFileIndex := errorFileIndex (pathPattern_data w) + 1 \<rparr>
            else (pathPattern_data w)\<lparr> fileIndex := fileIndex (pathPattern_data w) + 1 \<rparr>)"
  using assms
  by (auto simp: resolve_def Let_def bind_def lift_def ret_def getScreenshotPath_def
        incrementFileIndexes_def addWarning_def split: if_splits sum.splits prod.splits)

lemma resolve_custom_path:
  assumes "truthy (o_customPath opts)" and "resolve E c forError opts w = (res, w1)"
  shows "pathPattern_data w1 = pathPattern_data w
       \<and> (\<forall>r. res = Inr r \<longrightarrow>
            (\<exists>base. baseScreenshotsPath c = Some base
               \<and> r_screenshotPath r =
                   joinPath E [base, correctFilePath E (toString (o_customPath opts)) (DEFAULT_SCREENSHOT_EXTENSION E)]))"
  using assms
  by (auto simp: resolve_def Let_def bind_def lift_def ret_def getCustomScreenshotPath_def
        joinWithBaseScreenshotPath_def addWarning_def split: if_splits sum.splits prod.splits option.splits)

lemma pushScreenshot_cases:
  assumes "pushScreenshot E c forError r d w = (res, w')"
  shows "ext w' = ext w \<and> calls w' = calls w \<and> pathPattern_data w' = pathPattern_data w
       \<and> queue w' = queue w \<and> warningLog w' = warningLog w
       \<and> (case res of
            Inl e \<Rightarrow> w' = w \<and> testRuns (testEntry w) (browserId c) = None
          | Inr p \<Rightarrow> p = Some (r_screenshotPath r)
              \<and> (\<exists>run. testRuns (testEntry w) (browserId c) = Some run
                   \<and> screenshots (testEntry w') = screenshots (testEntry w) @
                       [\<lparr> testRunId = testRun_id run,
                          screenshotPath = r_screenshotPath r,
                          screenshotData = d,
                          thumbnailPath = r_thumbnailPath r,
                          userAgent = escapeUserAgent E (prettyUserAgent (parsedUserAgent (pathPattern_data w))),
                          s_quarantineAttempt = quarantineAttempt (pathPattern_data w),
                          takenOnFail = forError \<rparr>]))"
  using assms by (auto simp: pushScreenshot_def Let_def split: option.splits)

lemma capture_cases:
  assumes "enabled c" and "capture E c forError opts w = (res, w')"
  obtains (unresolved) e where "resolve E c forError opts w = (Inl e, w')" and "res = Inl e"
  | (failed) r w1 e where "resolve E c forError opts w = (Inr r, w1)"
      and "pipeline E c forError opts r w1 = (Inl e, w')" and "res = Inl e"
  | (completed) r w1 d w2 where "resolve E c forError opts w = (Inr r, w1)"
      and "pipeline E c forError opts r w1 = (Inr d, w2)"
      and "pushScreenshot E c forError r d w2 = (res, w')"
  using assms unfolding capture_def by (auto elim!: bind_cases)

lemma capture_disabled: "\<not> enabled c \<Longrightarrow> capture E c forError opts w = (Inr None, w)"
  by (simp add: capture_def ret_def)

lemma capture_emits:
  assumes "capture E c forError opts w = (res, w')"
    and "\<And>r. emits P (pipeline E c forError opts r)"
  shows "\<exists>cs. calls w' = calls w @ cs \<and> list_all P cs"
proof (cases "enabled c")
  case False
  with assms(1) show ?thesis by (simp add: capture_disabled)
next
  case True
  from True assms(1) show ?thesis
  proof (cases rule: capture_cases)
    case (unresolved e)
    with resolve_frame [OF unresolved(1)] show ?thesis by simp
  next
    case (failed r w1 e)
    from emits_calls [OF assms(2) failed(2)] resolve_frame [OF failed(1)]
    show ?thesis by auto
  next
    case (completed r w1 d w2)
    from emits_calls [OF assms(2) completed(2)] resolve_frame [OF completed(1)]
      pushScreenshot_cases [OF completed(3)]
    show ?thesis by auto
  qed
qed

lemma capture_crop_argument:
  assumes "capture E c forError opts w = (res, w')"
  shows "\<exists>cs. calls w' = calls w @ cs
           \<and> list_all (\<lambda>ev. case ev of
                 CropScreenshot png seed area p rect \<Rightarrow>
                   rect = getCropDimensions (o_cropDimensions opts) (o_pageDimensions opts)
               | _ \<Rightarrow> True) cs"
  by (rule capture_emits [OF assms]) (rule emits_pipeline; simp)

lemma capture_screenshots:
  assumes "enabled c" and "capture E c forError opts w = (res, w')"
  shows "case res of
           Inr p \<Rightarrow> \<exists>s. screenshots (testEntry w') = screenshots (testEntry w) @ [s]
         | Inl e \<Rightarrow> screenshots (testEntry w') = screenshots (testEntry w)"
  using assms
proof (cases rule: capture_cases)
  case (unresolved e)
  with resolve_frame [OF unresolved(1)] show ?thesis by simp
next
  case (failed r w1 e)
  have "keeps testEntry (pipeline E c forError opts r)"
    by (rule keeps_pipeline) simp
  from keepsD [OF this failed(2)] resolve_frame [OF failed(1)] failed(3)
  show ?thesis by simp
next
  case (completed r w1 d w2)
  have "keeps testEntry (pipeline E c forError opts r)"
    by (rule keeps_pipeline) simp
  from keepsD [OF this completed(2)] resolve_frame [OF completed(1)]
    pushScreenshot_cases [OF completed(3)]
  show ?thesis by (auto split: sum.splits)
qed

lemma capture_counters:
  assumes "enabled c" and "capture E c forError opts w = (res, w')"
  shows "pathPattern_data w' =
           (if truthy (o_customPath opts) then pathPattern_data w
            else if forError
            then (pathPattern_data w)\<lparr> errorFileIndex := errorFileIndex (pathPattern_data w) + 1 \<rparr>
            else (pathPattern_data w)\<lparr> fileIndex := fileIndex (pathPattern_data w) + 1 \<rparr>)"
proof -
  have k: "keeps pathPattern_data (pipeline E c forError opts r)" for r
    by (rule keeps_pipeline) simp
  have res: "pathPattern_data w1 =
           (if truthy (o_customPath opts) then pathPattern_data w
            else if forError
            then (pathPattern_data w)\<lparr> errorFileIndex := errorFileIndex (pathPattern_data w) + 1 \<rparr>
            else (pathPattern_data w)\<lparr> fileIndex := fileIndex (pathPattern_data w) + 1 \<rparr>)"
    if "resolve E c forError opts w = (rr, w1)" for rr w1
    using resolve_pattern_path [OF _ that] resolve_custom_path [OF _ that] by auto
  from assms show ?thesis
  proof (cases rule: capture_cases)
    case (unresolved e)
    from res [OF unresolved(1)] show ?thesis .
  next
    case (failed r w1 e)
    from res [OF failed(1)] keepsD [OF k failed(2)] show ?thesis by simp
  next
    case (completed r w1 d w2)
    from res [OF completed(1)] keepsD [OF k completed(2)] pushScreenshot_cases [OF completed(3)]
    show ?thesis by simp
  qed
qed

lemma last_crop_calls: "last (capture_calls c opts r @ crop_calls opts r png cropped) = ReadFile (r_tempPath r)"
  by (simp add: crop_calls_def)

lemma ReadFile_capture_calls: "ReadFile p \<notin> set (capture_calls c opts r)"
  by (simp add: capture_calls_def)

lemma ReadFile_crop_calls: "ReadFile (r_tempPath r) \<in> set (crop_calls opts r png cropped)"
  by (simp add: crop_calls_def)

lemma pipeline_crop_invoked:
  assumes "pipeline E c forError opts r w = (res, w')"
    and "provider_takeScreenshot E (browserId c) (r_tempPath r)
           (map_option width (getClientAreaDimensions (o_pageDimensions opts)))
           (map_option height (getClientAreaDimensions (o_pageDimensions opts)))
           (case o_fullPage opts of None \<Rightarrow> fullPage c | Some b \<Rightarrow> b) (ext w) = (Inr (), x1)"
    and "stat E (r_tempPath r) x1 = (Inr True, x2)"
    and "readPngFile E (r_tempPath r) x2 = (Inr png, x3)"
  shows "\<exists>post. calls w' = calls w @ capture_calls c opts r @
           [ReadPngFile (r_tempPath r),
            CropScreenshot png (o_markSeed opts) (getClientAreaDimensions (o_pageDimensions opts))
              (r_tempPath r) (getCropDimensions (o_cropDimensions opts) (o_pageDimensions opts))] @ post"
proof -
  let ?crop = "CropScreenshot png (o_markSeed opts) (getClientAreaDimensions (o_pageDimensions opts))
              (r_tempPath r) (getCropDimensions (o_cropDimensions opts) (o_pageDimensions opts))"
  let ?w3 = "w\<lparr> ext := x3, calls := calls w @ capture_calls c opts r @ [ReadPngFile (r_tempPath r)] \<rparr>"
  let ?rest = "\<lambda>croppedImage.
      bind (case croppedImage of
              Some img \<Rightarrow> call (WritePng (r_tempPath r) img) (writePng E (r_tempPath r) img)
            | None \<Rightarrow> ret ()) (\<lambda>_.
      bind (call (ReadFile (r_tempPath r)) (readFile E (r_tempPath r))) (\<lambda>b.
      if forError \<and> autoTakeOnFails c then ret (Some b) else publish E r b))"
  have t: "takeScreenshot E c (r_tempPath r)
             (map_option width (getClientAreaDimensions (o_pageDimensions opts)))
             (map_option height (getClientAreaDimensions (o_pageDimensions opts))) (o_fullPage opts) w
           = (Inr (), w\<lparr> ext := x1, calls := calls w @ [hd (capture_calls c opts r)] \<rparr>)"
    using assms(2) by (simp add: takeScreenshot_def call_def Let_def capture_calls_def)
  have s: "isScreenshotCaptured E (r_tempPath r) (w\<lparr> ext := x1, calls := calls w @ [hd (capture_calls c opts r)] \<rparr>)
           = (Inr True, w\<lparr> ext := x2, calls := calls w @ capture_calls c opts r \<rparr>)"
    using assms(3) by (simp add: isScreenshotCaptured_def call_def capture_calls_def)
  have d: "call (ReadPngFile (r_tempPath r)) (readPngFile E (r_tempPath r))
             (w\<lparr> ext := x2, calls := calls w @ capture_calls c opts r \<rparr>) = (Inr png, ?w3)"
    using assms(4) by (simp add: call_def)
  from assms(1) have "bind (call ?crop (cropScreenshot E png (o_markSeed opts)
        (getClientAreaDimensions (o_pageDimensions opts)) (r_tempPath r)
        (getCropDimensions (o_cropDimensions opts) (o_pageDimensions opts)))) ?rest ?w3 = (res, w')"
    unfolding pipeline_stages by (simp add: bind_def [of "takeScreenshot E c (r_tempPath r)
             (map_option width (getClientAreaDimensions (o_pageDimensions opts)))
             (map_option height (getClientAreaDimensions (o_pageDimensions opts))) (o_fullPage opts)"]
        bind_def [of "isScreenshotCaptured E (r_tempPath r)"]
        bind_def [of "call (ReadPngFile (r_tempPath r)) (readPngFile E (r_tempPath r))"] t s d staged_def)
  then have "\<exists>post. calls w' = calls ?w3 @ ?crop # post"
  proof (cases rule: bind_cases)
    case (fails e)
    then show ?thesis by (auto elim: call_cases)
  next
    case (goes cropped w4)
    from goes(1) have c4: "calls w4 = calls ?w3 @ [?crop]"
      by (auto elim: call_cases)
    have "emits (\<lambda>_. True) (?rest cropped)"
      by (intro emits_bind emits_case_option emits_call emits_ret emits_if)
         (simp_all add: publish_def emits_bind emits_call emits_if emits_ret)
    from emits_calls [OF this goes(2)] c4 show ?thesis by auto
  qed
  then show ?thesis by simp
qed

text \<open>
  The operation when the raw capture returns, with the answer of \<^verbatim>\<open>stat\<close> given, and when
  every collaborator up to the reading of the final bytes answers.
\<close>

lemma pipeline_checks:
  assumes "provider_takeScreenshot E (browserId c) (r_tempPath r)
           (map_option width (getClientAreaDimensions (o_pageDimensions opts)))
           (map_option height (getClientAreaDimensions (o_pageDimensions opts)))
           (case o_fullPage opts of None \<Rightarrow> fullPage c | Some b \<Rightarrow> b) (ext w) = (Inr (), x1)"
    and "stat E (r_tempPath r) x1 = (isFile, x2)"
  shows "pipeline E c forError opts r w =
           (if isFile = Inr True
            then staged E c forError opts r (w\<lparr> ext := x2, calls := calls w @ capture_calls c opts r \<rparr>)
            else (Inr None, w\<lparr> ext := x2, calls := calls w @ capture_calls c opts r \<rparr>))"
proof -
  have t: "takeScreenshot E c (r_tempPath r)
             (map_option width (getClientAreaDimensions (o_pageDimensions opts)))
             (map_option height (getClientAreaDimensions (o_pageDimensions opts))) (o_fullPage opts) w
           = (Inr (), w\<lparr> ext := x1, calls := calls w @
                   [TakeScreenshot (browserId c) (r_tempPath r)
                      (map_option width (getClientAreaDimensions (o_pageDimensions opts)))
                      (map_option height (getClientAreaDimensions (o_pageDimensions opts)))
                      (case o_fullPage opts of None \<Rightarrow> fullPage c | Some b \<Rightarrow> b)] \<rparr>)"
    using assms(1) by (simp add: takeScreenshot_def call_def Let_def)
  have s: "isScreenshotCaptured E (r_tempPath r) (w\<lparr> ext := x1, calls := cs \<rparr>)
           = (Inr (isFile = Inr True), w\<lparr> ext := x2, calls := cs @ [Stat (r_tempPath r)] \<rparr>)" for cs
    using assms(2) by (cases isFile) (auto simp: isScreenshotCaptured_def call_def)
  show ?thesis
    unfolding pipeline_stages by (simp add: bind_def t s ret_def capture_calls_def)
qed

lemma staged_reads:
  assumes "readPngFile E (r_tempPath r) (ext w) = (Inr png, x3)"
    and "cropScreenshot E png (o_markSeed opts) (getClientAreaDimensions (o_pageDimensions opts))
           (r_tempPath r) (getCropDimensions (o_cropDimensions opts) (o_pageDimensions opts)) x3
         = (Inr cropped, x4)"
    and "case cropped of None \<Rightarrow> x5 = x4 | Some img \<Rightarrow> writePng E (r_tempPath r) img x4 = (Inr (), x5)"
    and "readFile E (r_tempPath r) x5 = (Inr b, x6)"
    and "forError \<and> autoTakeOnFails c"
  shows "staged E c forError opts r w =
           (Inr (Some b), w\<lparr> ext := x6, calls := calls w @ crop_calls opts r png cropped \<rparr>)"
proof (cases cropped)
  case None
  with assms show ?thesis
    by (simp add: staged_def bind_def call_def ret_def crop_calls_def)
next
  case (Some img)
  with assms show ?thesis
    by (simp add: staged_def bind_def call_def ret_def crop_calls_def)
qed

lemma pushScreenshot_returns:
  "pushScreenshot E c forError r d w =
     (case testRuns (testEntry w) (browserId c) of
        None \<Rightarrow> (Inl TypeError, w)
      | Some run \<Rightarrow>
          (Inr (Some (r_screenshotPath r)),
           w\<lparr> testEntry := (testEntry w)\<lparr> screenshots := screenshots (testEntry w) @
              [\<lparr> testRunId = testRun_id run,
                 screenshotPath = r_screenshotPath r,
                 screenshotData = d,
                 thumbnailPath = r_thumbnailPath r,
                 userAgent = escapeUserAgent E (prettyUserAgent (parsedUserAgent (pathPattern_data w))),
                 s_quarantineAttempt = quarantineAttempt (pathPattern_data w),
                 takenOnFail = forError \<rparr>] \<rparr> \<rparr>))"
  by (simp add: pushScreenshot_def Let_def split: option.splits)

lemma capture_resolved:
  assumes "enabled c" and "resolve E c forError opts w = (Inr r, w1)"
    and "pipeline E c forError opts r w1 = (Inr d, w2)"
  shows "capture E c forError opts w = pushScreenshot E c forError r d w2"
  using assms by (simp add: capture_def bind_def)

lemma capture_emits_resolved:
  assumes "capture E c forError opts w = (res, w')"
    and "\<And>r w1. resolve E c forError opts w = (Inr r, w1) \<Longrightarrow> emits P (pipeline E c forError opts r)"
  shows "\<exists>cs. calls w' = calls w @ cs \<and> list_all P cs"
proof (cases "enabled c")
  case False
  with assms(1) show ?thesis by (simp add: capture_disabled)
next
  case True
  from True assms(1) show ?thesis
  proof (cases rule: capture_cases)
    case (unresolved e)
    with resolve_frame [OF unresolved(1)] show ?thesis by simp
  next
    case (failed r w1 e)
    from emits_calls [OF assms(2) [OF failed(1)] failed(2)] resolve_frame [OF failed(1)]
    show ?thesis by auto
  next
    case (completed r w1 d w2)
    from emits_calls [OF assms(2) [OF completed(1)] completed(2)] resolve_frame [OF completed(1)]
      pushScreenshot_cases [OF completed(3)]
    show ?thesis by auto
  qed
qed

subsection \<open>The scheduler\<close>

lemma enqueued_simps [simp]:
  "enqueued key [] = []"
  "enqueued key (tr @ [Enqueued n k b]) = enqueued key tr @ (if k = key then [n] else [])"
  "enqueued key (tr @ [Started n k]) = enqueued key tr"
  "enqueued key (tr @ [Finished n k]) = enqueued key tr"
  by (simp_all add: enqueued_def map_filter_def)

lemma warned_simps [simp]:
  "warned key [] = []"
  "warned key (tr @ [Enqueued n k b]) = warned key tr @ (if k = key then [b] else [])"
  "warned key (tr @ [Started n k]) = warned key tr"
  "warned key (tr @ [Finished n k]) = warned key tr"
  by (simp_all add: warned_def map_filter_def)

lemma started_simps [simp]:
  "started key [] = []"
  "started key (tr @ [Enqueued n k b]) = started key tr"
  "started key (tr @ [Started n k]) = started key tr @ (if k = key then [n] else [])"
  "started key (tr @ [Finished n k]) = started key tr"
  by (simp_all add: started_def map_filter_def)

lemma finished_simps [simp]:
  "finished key [] = []"
  "finished key (tr @ [Enqueued n k b]) = finished key tr"
  "finished key (tr @ [Started n k]) = finished key tr"
  "finished key (tr @ [Finished n k]) = finished key tr @ (if k = key then [n] else [])"
  by (simp_all add: finished_def map_filter_def)

lemma runs_simps [simp]:
  "runs key [] = []"
  "runs key (tr @ [Enqueued n k b]) = runs key tr"
  "runs key (tr @ [Started n k]) = runs key tr @ (if k = key then [Started n k] else [])"
  "runs key (tr @ [Finished n k]) = runs key tr @ (if k = key then [Finished n k] else [])"
  by (simp_all add: runs_def)


text \<open>The three kinds of step.\<close>

lemma step_Call:
  assumes "step E (Call c forError opts) s = Some s'"
  obtains (disabled) "\<not> enabled c" and "s' = s\<lparr> settled := settled s @ [Inr None] \<rparr>"
  | (unresolved) e w1 where "enabled c" and "resolve E c forError opts (world s) = (Inl e, w1)"
      and "s' = s\<lparr> world := w1, settled := settled s @ [Inl e] \<rparr>"
  | (queued) r w1 where "enabled c" and "resolve E c forError opts (world s) = (Inr r, w1)"
      and "s' = s\<lparr> world := w1\<lparr> queue := addToQueue (queue w1) (r_screenshotPath r) (length (tasks s)) \<rparr>,
                    tasks := tasks s @ [\<lparr> t_capturer = c, t_forError = forError, t_opts = opts, t_resolved = r \<rparr>],
                    trace := trace s @ [Enqueued (length (tasks s)) (r_screenshotPath r)
                                          (isInQueue (queue w1) (r_screenshotPath r))] \<rparr>"
  using assms by (auto simp: step_def split: if_splits prod.splits sum.splits)

lemma step_Start:
  assumes "step E (Start key) s = Some s'"
  obtains n rest where "queue (world s) key = n # rest" and "\<not> inFlight s key"
    and "s' = s\<lparr> inFlight := (inFlight s)(key := True), trace := trace s @ [Started n key] \<rparr>"
  using assms by (auto simp: step_def split: list.splits if_splits)

lemma step_Finish:
  assumes "step E (Finish key) s = Some s'"
  obtains n rest w3 out where "queue (world s) key = n # rest" and "inFlight s key" and "n < length (tasks s)"
    and "queue w3 = (queue (world s))(key := rest)"
    and "pathPattern_data w3 = pathPattern_data (world s)"
    and "warningLog w3 = warningLog (world s)"
    and "s' = s\<lparr> world := w3, inFlight := (inFlight s)(key := False),
                  trace := trace s @ [Finished n key], settled := settled s @ [out] \<rparr>"
proof -
  from assms obtain n rest where q: "queue (world s) key = n # rest" and f: "inFlight s key"
    and n: "n < length (tasks s)"
    by (auto simp: step_def split: list.splits if_splits)
  let ?t = "tasks s ! n"
  obtain res w1 where p: "pipeline E (t_capturer ?t) (t_forError ?t) (t_opts ?t) (t_resolved ?t) (world s) = (res, w1)"
    by (cases "pipeline E (t_capturer ?t) (t_forError ?t) (t_opts ?t) (t_resolved ?t) (world s)")
  let ?w2 = "w1\<lparr> queue := (queue w1)(key := rest) \<rparr>"
  obtain out w3 where o: "(case res of Inl e \<Rightarrow> (Inl e, ?w2)
      | Inr d \<Rightarrow> pushScreenshot E (t_capturer ?t) (t_forError ?t) (t_resolved ?t) d ?w2) = (out, w3)"
    by (cases "(case res of Inl e \<Rightarrow> (Inl e, ?w2)
      | Inr d \<Rightarrow> pushScreenshot E (t_capturer ?t) (t_forError ?t) (t_resolved ?t) d ?w2)")
  have k: "queue w1 = queue (world s)" "pathPattern_data w1 = pathPattern_data (world s)"
    "warningLog w1 = warningLog (world s)"
    using keepsD [OF keeps_pipeline p, of queue] keepsD [OF keeps_pipeline p, of pathPattern_data]
      keepsD [OF keeps_pipeline p, of warningLog] by simp_all
  have w3: "queue w3 = queue ?w2 \<and> pathPattern_data w3 = pathPattern_data ?w2 \<and> warningLog w3 = warningLog ?w2"
  proof (cases res)
    case (Inl e)
    with o show ?thesis by simp
  next
    case (Inr d)
    with o have "pushScreenshot E (t_capturer ?t) (t_forError ?t) (t_resolved ?t) d ?w2 = (out, w3)"
      by simp
    from pushScreenshot_cases [OF this] show ?thesis by simp
  qed
  have s': "s' = s\<lparr> world := w3, inFlight := (inFlight s)(key := False),
                  trace := trace s @ [Finished n key], settled := settled s @ [out] \<rparr>"
    using assms q f n p o by (simp add: step_def Let_def)
  from w3 k have a: "queue w3 = (queue (world s))(key := rest)"
    "pathPattern_data w3 = pathPattern_data (world s)" "warningLog w3 = warningLog (world s)"
    by simp_all
  show ?thesis by (rule that [OF q f n a s'])
qed













lemma step_advances:
  assumes "step E a s = Some s'"
  shows "fileIndex (pathPattern_data (world s'))
           = fileIndex (pathPattern_data (world s)) + (if advances False a then 1 else 0)
       \<and> errorFileIndex (pathPattern_data (world s'))
           = errorFileIndex (pathPattern_data (world s)) + (if advances True a then 1 else 0)"
proof (cases a)
  case (Call c forError opts)
  with assms have "step E (Call c forError opts) s = Some s'" by simp
  then show ?thesis
  proof (cases rule: step_Call)
    case disabled
    with Call show ?thesis by (simp add: advances_def)
  next
    case (unresolved e w1)
    with Call resolve_pattern_path [OF _ unresolved(2)] resolve_custom_path [OF _ unresolved(2)]
    show ?thesis by (cases "truthy (o_customPath opts)") (simp_all add: advances_def)
  next
    case (queued r w1)
    with Call resolve_pattern_path [OF _ queued(2)] resolve_custom_path [OF _ queued(2)]
    show ?thesis by (cases "truthy (o_customPath opts)") (simp_all add: advances_def)
  qed
next
  case (Start key)
  with assms show ?thesis by (auto simp: advances_def elim!: step_Start)
next
  case (Finish key)
  with assms show ?thesis by (auto simp: advances_def elim!: step_Finish)
qed

lemma exec_advances:
  "exec E acts s = Some s' \<Longrightarrow>
     fileIndex (pathPattern_data (world s'))
       = fileIndex (pathPattern_data (world s)) + int (length (filter (advances False) acts))
   \<and> errorFileIndex (pathPattern_data (world s'))
       = errorFileIndex (pathPattern_data (world s)) + int (length (filter (advances True) acts))"
proof (induction acts arbitrary: s)
  case Nil
  then show ?case by simp
next
  case (Cons a acts)
  from Cons.prems obtain s1 where a: "step E a s = Some s1" and r: "exec E acts s1 = Some s'"
    by (auto split: option.splits)
  from step_advances [OF a] Cons.IH [OF r] show ?case by simp
qed

lemma captures_advances:
  assumes "enabled c" and "\<forall>q \<in> set reqs. \<not> truthy (o_customPath (snd q))"
  shows "fileIndex (pathPattern_data (captures E c reqs w))
           = fileIndex (pathPattern_data w) + int (length (filter (\<lambda>q. \<not> fst q) reqs))
       \<and> errorFileIndex (pathPattern_data (captures E c reqs w))
           = errorFileIndex (pathPattern_data w) + int (length (filter fst reqs))"
  using assms(2)
proof (induction reqs arbitrary: w)
  case Nil
  then show ?case by simp
next
  case (Cons q reqs)
  obtain forError opts where q: "q = (forError, opts)" by (cases q)
  obtain res w1 where c: "capture E c forError opts w = (res, w1)"
    by (cases "capture E c forError opts w")
  from Cons.prems q have "\<not> truthy (o_customPath opts)" by simp
  with capture_counters [OF assms(1) c]
  have "pathPattern_data w1 =
           (if forError
            then (pathPattern_data w)\<lparr> errorFileIndex := errorFileIndex (pathPattern_data w) + 1 \<rparr>
            else (pathPattern_data w)\<lparr> fileIndex := fileIndex (pathPattern_data w) + 1 \<rparr>)"
    by simp
  moreover from Cons.prems have "\<forall>q \<in> set reqs. \<not> truthy (o_customPath (snd q))" by simp
  from Cons.IH [OF this, of w1]
  have "fileIndex (pathPattern_data (captures E c reqs w1))
           = fileIndex (pathPattern_data w1) + int (length (filter (\<lambda>q. \<not> fst q) reqs))
       \<and> errorFileIndex (pathPattern_data (captures E c reqs w1))
           = errorFileIndex (pathPattern_data w1) + int (length (filter fst reqs))" .
  ultimately show ?case using q c by simp
qed

subsection \<open>Evaluation in the concrete setting\<close>

lemmas demo_defs = capture_def resolve_def pipeline_def pushScreenshot_def bind_def ret_def call_def lift_def
  takeScreenshot_def isScreenshotCaptured_def getScreenshotPath_def getCustomScreenshotPath_def
  joinWithBaseScreenshotPath_def incrementFileIndexes_def getThumbnailPath_def addWarning_def
  isInQueue_def truthy_def toString_def demo_def world0_def capturer0_def Capturer_def noOptions_def
  correctFilePath_spec_def hasExtension_def parentOf_def nameOf_def readBytes_def
  getClientAreaDimensions_def getCropDimensions_def getDimensionWithoutScrollbar_def
  Math_floor_def Math_round_def Math_max_def suffix_def Let_def

text \<open>Products with the double nearest to 0.7, each a tie or a near miss of the exact product.\<close>

lemma mul_dpr0:
  "mul 1000 dpr0 = 700" "mul 10 dpr0 = 7" "mul 5 dpr0 = 7 / 2" "mul 15 dpr0 = 21 / 2"
  "mul 3 dpr0 = 1182194902184755 / 562949953421312"
  by code_simp+

lemma exact_dpr0:
  "\<lfloor>1000 * dpr0\<rfloor> = 699" "\<lfloor>10 * dpr0\<rfloor> = 6" "round (5 * dpr0) = 3" "round (15 * dpr0) = 10"
  by code_simp+

lemmas sched_defs = step_def idle_def addToQueue_def optionsA_def optionsB_def submitted_def drained_def
  interleaved_def

section \<open>The claims\<close>




text \<open>
  C2. An enabled invocation without an explicit path advances the counter of its reason
  by one and leaves the other counter alone, whatever its outcome. Hence a sequence of
  such invocations advances the normal counter by the number of action captures and the
  error counter by the number of failure captures; and so does every schedule that
  interleaves invocations with the starts and ends of their operations.
\<close>

theorem counters_advance:
  "(enabled c \<and> \<not> truthy (o_customPath opts) \<and> capture E c forError opts w = (res, w') \<longrightarrow>
      fileIndex (pathPattern_data w') = fileIndex (pathPattern_data w) + (if forError then 0 else 1)
    \<and> errorFileIndex (pathPattern_data w') = errorFileIndex (pathPattern_data w) + (if forError then 1 else 0))
   \<and> (enabled c \<and> (\<forall>q \<in> set reqs. \<not> truthy (o_customPath (snd q))) \<longrightarrow>
      fileIndex (pathPattern_data (captures E c reqs w))
        = fileIndex (pathPattern_data w) + int (length (filter (\<lambda>q. \<not> fst q) reqs))
    \<and> errorFileIndex (pathPattern_data (captures E c reqs w))
        = errorFileIndex (pathPattern_data w) + int (length (filter fst reqs)))
   \<and> (exec E acts s = Some s' \<longrightarrow>
      fileIndex (pathPattern_data (world s'))
        = fileIndex (pathPattern_data (world s)) + int (length (filter (advances False) acts))
    \<and> errorFileIndex (pathPattern_data (world s'))
        = errorFileIndex (pathPattern_data (world s)) + int (length (filter (advances True) acts)))"
proof (intro conjI impI)
  assume a: "enabled c \<and> \<not> truthy (o_customPath opts) \<and> capture E c forError opts w = (res, w')"
  then have "enabled c" "capture E c forError opts w = (res, w')" by simp_all
  from capture_counters [OF this] a
  show "fileIndex (pathPattern_data w') = fileIndex (pathPattern_data w) + (if forError then 0 else 1)"
    and "errorFileIndex (pathPattern_data w') = errorFileIndex (pathPattern_data w) + (if forError then 1 else 0)"
    by simp_all
next
  assume a: "enabled c \<and> (\<forall>q \<in> set reqs. \<not> truthy (o_customPath (snd q)))"
  then have "enabled c" "\<forall>q \<in> set reqs. \<not> truthy (o_customPath (snd q))" by simp_all
  from captures_advances [OF this, of E w]
  show "fileIndex (pathPattern_data (captures E c reqs w))
        = fileIndex (pathPattern_data w) + int (length (filter (\<lambda>q. \<not> fst q) reqs))"
    and "errorFileIndex (pathPattern_data (captures E c reqs w))
        = errorFileIndex (pathPattern_data w) + int (length (filter fst reqs))"
    by simp_all
next
  assume a: "exec E acts s = Some s'"
  from exec_advances [OF a]
  show "fileIndex (pathPattern_data (world s'))
        = fileIndex (pathPattern_data (world s)) + int (length (filter (advances False) acts))"
    and "errorFileIndex (pathPattern_data (world s'))
        = errorFileIndex (pathPattern_data (world s)) + int (length (filter (advances True) acts))"
    by simp_all
qed

theorem counters_advance_witness:
  "enabled capturer0 \<and> \<not> truthy (o_customPath noOptions)
   \<and> fst (capture (demo Crashes) capturer0 True noOptions world0) = Inl (Rejected ''browser disconnected'')
   \<and> fileIndex (pathPattern_data (snd (capture (demo Crashes) capturer0 True noOptions world0))) = 1
   \<and> errorFileIndex (pathPattern_data (snd (capture (demo Crashes) capturer0 True noOptions world0))) = 2
   \<and> fileIndex (pathPattern_data (captures (demo Produces) capturer0
        [(False, noOptions), (True, noOptions), (False, noOptions)] world0)) = 3
   \<and> errorFileIndex (pathPattern_data (captures (demo Produces) capturer0
        [(False, noOptions), (True, noOptions), (False, noOptions)] world0)) = 2
   \<and> map_option (\<lambda>s. (fileIndex (pathPattern_data (world s)), errorFileIndex (pathPattern_data (world s))))
        (exec (demo Produces) interleaved (idle world0)) = Some (3, 2)"
proof -
  let ?run = "capture (demo Crashes) capturer0 True noOptions world0"
  let ?reqs = "[(False, noOptions), (True, noOptions), (False, noOptions)]"
  have en: "enabled capturer0" "\<not> truthy (o_customPath noOptions)"
    by (simp_all add: capturer0_def Capturer_def truthy_def noOptions_def)
  have r: "fst ?run = Inl (Rejected ''browser disconnected'')"
    by (simp add: demo_defs)
  have w: "fileIndex (pathPattern_data world0) = 1" "errorFileIndex (pathPattern_data world0) = 1"
    "world (idle world0) = world0"
    by (simp_all add: world0_def idle_def)
  have "map_option trace (exec (demo Produces) interleaved (idle world0)) = Some
     [Enqueued 0 ''/out/i.png'' False, Enqueued 1 ''/out/errors/i.png'' False,
      Started 1 ''/out/errors/i.png'', Enqueued 2 ''/out/ii.png'' False, Started 2 ''/out/ii.png'',
      Finished 1 ''/out/errors/i.png'', Started 0 ''/out/i.png'', Finished 2 ''/out/ii.png'',
      Finished 0 ''/out/i.png'']"
    by (simp add: sched_defs demo_defs numeral_2_eq_2)
  then obtain si where si: "exec (demo Produces) interleaved (idle world0) = Some si"
    by (cases "exec (demo Produces) interleaved (idle world0)") auto
  have a: "length (filter (advances False) interleaved) = 2" "length (filter (advances True) interleaved) = 1"
    using en by (simp_all add: interleaved_def advances_def)
  have one: "fileIndex (pathPattern_data (snd ?run)) = 1 \<and> errorFileIndex (pathPattern_data (snd ?run)) = 2"
    using counters_advance [where c = capturer0 and opts = noOptions and E = "demo Crashes" and forError = True
      and w = world0 and res = "fst ?run" and w' = "snd ?run", THEN conjunct1] en
    by (simp add: w)
  have many: "fileIndex (pathPattern_data (captures (demo Produces) capturer0 ?reqs world0)) = 3
      \<and> errorFileIndex (pathPattern_data (captures (demo Produces) capturer0 ?reqs world0)) = 2"
    using counters_advance [where c = capturer0 and E = "demo Produces" and w = world0 and reqs = ?reqs,
      THEN conjunct2, THEN conjunct1] en
    by (simp add: w del: captures.simps)
  have any: "fileIndex (pathPattern_data (world si)) = 3 \<and> errorFileIndex (pathPattern_data (world si)) = 2"
    using counters_advance [where E = "demo Produces" and acts = interleaved and s = "idle world0" and s' = si,
      THEN conjunct2, THEN conjunct2] si
    by (simp add: w a)
  from one many any en r show ?thesis
    by (simp add: si del: captures.simps)
qed

text \<open>
  C3, as the code has it. When the destination resolves, the raw capture returns, and the
  staging path is then not a regular file (\<^verbatim>\<open>stat\<close> fails or says so: the browser created
  none and no earlier capture left one there), the only calls the invocation makes are the
  raw capture and the check of the staging file, so nothing is cropped, written or
  thumbnailed. If the test entry has a run for the browser, the invocation returns the
  resolved destination path and appends one record, whose bytes are undefined; if it has
  none, the invocation is rejected with a TypeError and appends no record.
\<close>

theorem staging_file_missing:
  assumes "enabled c"
    and "resolve E c forError opts w = (Inr r, w1)"
    and "provider_takeScreenshot E (browserId c) (r_tempPath r)
           (map_option width (getClientAreaDimensions (o_pageDimensions opts)))
           (map_option height (getClientAreaDimensions (o_pageDimensions opts)))
           (case o_fullPage opts of None \<Rightarrow> fullPage c | Some b \<Rightarrow> b) (ext w) = (Inr (), x1)"
    and "stat E (r_tempPath r) x1 = (isFile, x2)"
    and "isFile \<noteq> Inr True"
  shows "\<exists>w'. calls w' = calls w @
                [TakeScreenshot (browserId c) (r_tempPath r)
                   (map_option width (getClientAreaDimensions (o_pageDimensions opts)))
                   (map_option height (getClientAreaDimensions (o_pageDimensions opts)))
                   (case o_fullPage opts of None \<Rightarrow> fullPage c | Some b \<Rightarrow> b),
                 Stat (r_tempPath r)]
           \<and> ext w' = x2
           \<and> (case testRuns (testEntry w) (browserId c) of
                Some run \<Rightarrow>
                  capture E c forError opts w = (Inr (Some (r_screenshotPath r)), w')
                  \<and> screenshots (testEntry w') = screenshots (testEntry w) @
                      [\<lparr> testRunId = testRun_id run,
                         screenshotPath = r_screenshotPath r,
                         screenshotData = None,
                         thumbnailPath = r_thumbnailPath r,
                         userAgent = escapeUserAgent E (prettyUserAgent (parsedUserAgent (pathPattern_data w1))),
                         s_quarantineAttempt = quarantineAttempt (pathPattern_data w1),
                         takenOnFail = forError \<rparr>]
              | None \<Rightarrow>
                  capture E c forError opts w = (Inl TypeError, w')
                  \<and> screenshots (testEntry w') = screenshots (testEntry w))"
proof -
  note f = resolve_frame [OF assms(2)]
  let ?w2 = "w1\<lparr> ext := x2, calls := calls w1 @ capture_calls c opts r \<rparr>"
  have p: "pipeline E c forError opts r w1 = (Inr None, ?w2)"
    using pipeline_checks [of E c r opts w1 x1 isFile x2 forError] assms(3,4,5) f by simp
  note q = capture_resolved [OF assms(1,2) p]
  show ?thesis
  proof (cases "testRuns (testEntry w) (browserId c)")
    case None
    with q f show ?thesis
      by (simp add: pushScreenshot_returns capture_calls_def)
  next
    case (Some run)
    with q f show ?thesis
      by (simp add: pushScreenshot_returns capture_calls_def)
  qed
qed

theorem staging_file_missing_witness:
  "enabled capturer0
   \<and> fst (resolve (demo Silent) capturer0 False noOptions world0)
       = Inr \<lparr> r_thumbnails = True, r_screenshotPath = ''/out/i.png'',
               r_thumbnailPath = ''/out/thumbnails/i.png'', r_tempPath = ''/tmp/i.png'' \<rparr>
   \<and> ext world0 ''/tmp/i.png'' = None
   \<and> fst (capture (demo Silent) capturer0 False noOptions world0) = Inr (Some ''/out/i.png'')
   \<and> calls (snd (capture (demo Silent) capturer0 False noOptions world0))
       = [TakeScreenshot ''b1'' ''/tmp/i.png'' None None False, Stat ''/tmp/i.png'']
   \<and> map screenshotData (screenshots (testEntry (snd (capture (demo Silent) capturer0 False noOptions world0))))
       = [None]"
proof -
  let ?r = "\<lparr> r_thumbnails = True, r_screenshotPath = ''/out/i.png'',
               r_thumbnailPath = ''/out/thumbnails/i.png'', r_tempPath = ''/tmp/i.png'' \<rparr>"
  have r: "fst (resolve (demo Silent) capturer0 False noOptions world0) = Inr ?r"
    by (simp add: demo_defs)
  then have h: "resolve (demo Silent) capturer0 False noOptions world0
      = (Inr ?r, snd (resolve (demo Silent) capturer0 False noOptions world0))"
    by (metis prod.collapse)
  have en: "enabled capturer0"
    by (simp add: capturer0_def Capturer_def truthy_def)
  have t: "provider_takeScreenshot (demo Silent) (browserId capturer0) (r_tempPath ?r)
           (map_option width (getClientAreaDimensions (o_pageDimensions noOptions)))
           (map_option height (getClientAreaDimensions (o_pageDimensions noOptions)))
           (case o_fullPage noOptions of None \<Rightarrow> fullPage capturer0 | Some b \<Rightarrow> b) (ext world0)
         = (Inr (), Map.empty)"
    by (simp add: demo_def world0_def)
  have s: "stat (demo Silent) (r_tempPath ?r) Map.empty = (Inl (Rejected ''ENOENT''), Map.empty)"
    "Inl (Rejected ''ENOENT'') \<noteq> (Inr True :: error + bool)"
    by (simp_all add: demo_def)
  have u: "testRuns (testEntry world0) (browserId capturer0) = Some \<lparr> testRun_id = ''run1'' \<rparr>"
    by (simp add: world0_def capturer0_def Capturer_def)
  have e: "calls world0 = []" "screenshots (testEntry world0) = []" "ext world0 ''/tmp/i.png'' = None"
    by (simp_all add: world0_def)
  from staging_file_missing [OF en h t s] r en e(3)
  show ?thesis unfolding e u
    by (auto simp: capturer0_def Capturer_def noOptions_def getClientAreaDimensions_def)
qed

text \<open>
  C3 as stated fails. The staging path depends on the destination alone, and the operation
  never removes the staging file, so a second capture to the same explicit path finds the
  file the first one left. The browser of the second capture returns without touching the
  file system, so it does not create the staging file; yet the staged file is cropped, the
  destination written and the thumbnail generated, and the record carries the bytes of the
  first capture. The last two conjuncts are the other way to fail: with no test run for
  the browser the invocation is rejected, returns no path and appends no record.
\<close>

theorem stale_staging_file_counterexample:
  "enabled capturer0
   \<and> provider_takeScreenshot (demo Silent) ''b1'' ''/tmp/a.png'' None None False (ext world1)
       = (Inr (), ext world1)
   \<and> ext world1 ''/tmp/a.png'' = Some [1, 2, 3]
   \<and> fst (capture (demo Silent) capturer0 False optionsA world1) = Inr (Some ''/out/a.png'')
   \<and> drop (length (calls world1)) (calls (snd (capture (demo Silent) capturer0 False optionsA world1)))
       = [TakeScreenshot ''b1'' ''/tmp/a.png'' None None False, Stat ''/tmp/a.png'',
          ReadPngFile ''/tmp/a.png'', CropScreenshot [1, 2, 3] None None ''/tmp/a.png'' None,
          ReadFile ''/tmp/a.png'', MakeDir ''/out'', WriteFile ''/out/a.png'' [1, 2, 3],
          GenerateThumbnail ''/out/a.png'' ''/out/thumbnails/a.png'']
   \<and> map screenshotData (screenshots (testEntry (snd (capture (demo Silent) capturer0 False optionsA world1))))
       = [Some [1, 2, 3], Some [1, 2, 3]]
   \<and> fst (capture (demo Silent) capturer0 False noOptions
             (world0\<lparr> testEntry := \<lparr> testRuns = Map.empty, screenshots = [] \<rparr> \<rparr>)) = Inl TypeError
   \<and> screenshots (testEntry (snd (capture (demo Silent) capturer0 False noOptions
             (world0\<lparr> testEntry := \<lparr> testRuns = Map.empty, screenshots = [] \<rparr> \<rparr>)))) = []"
  by (simp add: demo_defs world1_def optionsA_def)

text \<open>
  C4, as the code has it. A failure capture with the auto-take-on-failure flag set never
  creates a directory, writes a file with the final bytes or generates a thumbnail,
  whatever its outcome, and the only path its calls are given to write to is the staging
  path: the destination is named by no call unless the staging path is the destination
  itself. When the raw capture returns, the staging path is a regular file, and the
  decoding, the cropping, the overwrite if there is one and the reading of the staging file
  succeed, the calls are exactly these, and the appended record is marked as taken on
  failure and carries the bytes that the reading resolved to; with no test run for the
  browser the invocation is rejected instead and appends none.
\<close>

theorem failure_capture_kept_in_memory:
  assumes "enabled c" and "autoTakeOnFails c"
  shows "\<exists>cs. calls (snd (capture E c True opts w)) = calls w @ cs
          \<and> list_all (\<lambda>ev. \<not> publishes ev) cs
          \<and> (\<forall>r w1. resolve E c True opts w = (Inr r, w1) \<longrightarrow>
                list_all (\<lambda>ev. set (written ev) \<subseteq> {r_tempPath r}) cs
                \<and> (\<forall>x1 x2 png x3 cropped x4 x5 b x6.
                     provider_takeScreenshot E (browserId c) (r_tempPath r)
                       (map_option width (getClientAreaDimensions (o_pageDimensions opts)))
                       (map_option height (getClientAreaDimensions (o_pageDimensions opts)))
                       (case o_fullPage opts of None \<Rightarrow> fullPage c | Some b \<Rightarrow> b) (ext w) = (Inr (), x1)
                     \<longrightarrow> stat E (r_tempPath r) x1 = (Inr True, x2)
                     \<longrightarrow> readPngFile E (r_tempPath r) x2 = (Inr png, x3)
                     \<longrightarrow> cropScreenshot E png (o_markSeed opts) (getClientAreaDimensions (o_pageDimensions opts))
                           (r_tempPath r) (getCropDimensions (o_cropDimensions opts) (o_pageDimensions opts)) x3
                         = (Inr cropped, x4)
                     \<longrightarrow> (case cropped of
                            None \<Rightarrow> x5 = x4
                          | Some img \<Rightarrow> writePng E (r_tempPath r) img x4 = (Inr (), x5))
                     \<longrightarrow> readFile E (r_tempPath r) x5 = (Inr b, x6)
                     \<longrightarrow> cs = capture_calls c opts r @ crop_calls opts r png cropped
                         \<and> ext (snd (capture E c True opts w)) = x6
                         \<and> (case testRuns (testEntry w) (browserId c) of
                              Some run \<Rightarrow>
                                fst (capture E c True opts w) = Inr (Some (r_screenshotPath r))
                                \<and> screenshots (testEntry (snd (capture E c True opts w)))
                                    = screenshots (testEntry w) @
                                      [\<lparr> testRunId = testRun_id run,
                                         screenshotPath = r_screenshotPath r,
                                         screenshotData = Some b,
                                         thumbnailPath = r_thumbnailPath r,
                                         userAgent = escapeUserAgent E
                                           (prettyUserAgent (parsedUserAgent (pathPattern_data w1))),
                                         s_quarantineAttempt = quarantineAttempt (pathPattern_data w1),
                                         takenOnFail = True \<rparr>]
                            | None \<Rightarrow>
                                fst (capture E c True opts w) = Inl TypeError
                                \<and> screenshots (testEntry (snd (capture E c True opts w)))
                                    = screenshots (testEntry w))))"
proof -
  let ?run = "capture E c True opts w"
  let ?P = "\<lambda>ev. \<not> publishes ev
              \<and> (\<forall>r w1. resolve E c True opts w = (Inr r, w1) \<longrightarrow> set (written ev) \<subseteq> {r_tempPath r})"
  have em: "emits ?P (pipeline E c True opts r)" if "resolve E c True opts w = (Inr r, w1)" for r w1
    by (rule emits_pipeline) (simp_all add: publishes_def written_def assms(2) that)
  have "\<exists>cs. calls (snd ?run) = calls w @ cs \<and> list_all ?P cs"
    by (rule capture_emits_resolved [OF surjective_pairing]) (rule em)
  then obtain cs where cs: "calls (snd ?run) = calls w @ cs" "list_all ?P cs"
    by blast
  from cs(2) have n: "list_all (\<lambda>ev. \<not> publishes ev) cs"
    by (simp add: list_all_iff)
  have "list_all (\<lambda>ev. set (written ev) \<subseteq> {r_tempPath r}) cs
        \<and> (\<forall>x1 x2 png x3 cropped x4 x5 b x6.
                     provider_takeScreenshot E (browserId c) (r_tempPath r)
                       (map_option width (getClientAreaDimensions (o_pageDimensions opts)))
                       (map_option height (getClientAreaDimensions (o_pageDimensions opts)))
                       (case o_fullPage opts of None \<Rightarrow> fullPage c | Some b \<Rightarrow> b) (ext w) = (Inr (), x1)
                     \<longrightarrow> stat E (r_tempPath r) x1 = (Inr True, x2)
                     \<longrightarrow> readPngFile E (r_tempPath r) x2 = (Inr png, x3)
                     \<longrightarrow> cropScreenshot E png (o_markSeed opts) (getClientAreaDimensions (o_pageDimensions opts))
                           (r_tempPath r) (getCropDimensions (o_cropDimensions opts) (o_pageDimensions opts)) x3
                         = (Inr cropped, x4)
                     \<longrightarrow> (case cropped of
                            None \<Rightarrow> x5 = x4
                          | Some img \<Rightarrow> writePng E (r_tempPath r) img x4 = (Inr (), x5))
                     \<longrightarrow> readFile E (r_tempPath r) x5 = (Inr b, x6)
                     \<longrightarrow> cs = capture_calls c opts r @ crop_calls opts r png cropped
                         \<and> ext (snd ?run) = x6
                         \<and> (case testRuns (testEntry w) (browserId c) of
                              Some run \<Rightarrow>
                                fst ?run = Inr (Some (r_screenshotPath r))
                                \<and> screenshots (testEntry (snd ?run))
                                    = screenshots (testEntry w) @
                                      [\<lparr> testRunId = testRun_id run,
                                         screenshotPath = r_screenshotPath r,
                                         screenshotData = Some b,
                                         thumbnailPath = r_thumbnailPath r,
                                         userAgent = escapeUserAgent E
                                           (prettyUserAgent (parsedUserAgent (pathPattern_data w1))),
                                         s_quarantineAttempt = quarantineAttempt (pathPattern_data w1),
                                         takenOnFail = True \<rparr>]
                            | None \<Rightarrow>
                                fst ?run = Inl TypeError
                                \<and> screenshots (testEntry (snd ?run)) = screenshots (testEntry w)))"
    if res: "resolve E c True opts w = (Inr r, w1)" for r w1
  proof (intro conjI allI impI)
    from cs(2) res show "list_all (\<lambda>ev. set (written ev) \<subseteq> {r_tempPath r}) cs"
      by (simp add: list_all_iff)
  next
    fix x1 x2 png x3 cropped x4 x5 b x6
    assume take: "provider_takeScreenshot E (browserId c) (r_tempPath r)
                       (map_option width (getClientAreaDimensions (o_pageDimensions opts)))
                       (map_option height (getClientAreaDimensions (o_pageDimensions opts)))
                       (case o_fullPage opts of None \<Rightarrow> fullPage c | Some b \<Rightarrow> b) (ext w) = (Inr (), x1)"
      and st: "stat E (r_tempPath r) x1 = (Inr True, x2)"
      and rd: "readPngFile E (r_tempPath r) x2 = (Inr png, x3)"
      and cr: "cropScreenshot E png (o_markSeed opts) (getClientAreaDimensions (o_pageDimensions opts))
                 (r_tempPath r) (getCropDimensions (o_cropDimensions opts) (o_pageDimensions opts)) x3
               = (Inr cropped, x4)"
      and ov: "case cropped of
                 None \<Rightarrow> x5 = x4
               | Some img \<Rightarrow> writePng E (r_tempPath r) img x4 = (Inr (), x5)"
      and rf: "readFile E (r_tempPath r) x5 = (Inr b, x6)"
    note f = resolve_frame [OF res]
    let ?w2 = "w1\<lparr> ext := x2, calls := calls w1 @ capture_calls c opts r \<rparr>"
    let ?w3 = "?w2\<lparr> ext := x6, calls := calls ?w2 @ crop_calls opts r png cropped \<rparr>"
    have "pipeline E c True opts r w1 = staged E c True opts r ?w2"
      using pipeline_checks [of E c r opts w1 x1 "Inr True" x2 True] take st f by simp
    also have "\<dots> = (Inr (Some b), ?w3)"
      by (rule staged_reads [OF _ cr ov rf]) (simp_all add: rd assms(2))
    finally have p: "pipeline E c True opts r w1 = (Inr (Some b), ?w3)" .
    note q = capture_resolved [OF assms(1) res p]
    have k: "calls ?w3 = calls w @ capture_calls c opts r @ crop_calls opts r png cropped"
      "ext ?w3 = x6" "testEntry ?w3 = testEntry w" "pathPattern_data ?w3 = pathPattern_data w1"
      using f by simp_all
    have "calls (snd ?run) = calls ?w3"
      using pushScreenshot_cases [OF surjective_pairing, of E c True r "Some b" ?w3] q by simp
    with cs(1) k(1) show "cs = capture_calls c opts r @ crop_calls opts r png cropped"
      by simp
    show "ext (snd ?run) = x6"
      using pushScreenshot_cases [OF surjective_pairing, of E c True r "Some b" ?w3] q by simp
    show "case testRuns (testEntry w) (browserId c) of
            Some run \<Rightarrow>
              fst ?run = Inr (Some (r_screenshotPath r))
              \<and> screenshots (testEntry (snd ?run))
                  = screenshots (testEntry w) @
                    [\<lparr> testRunId = testRun_id run,
                       screenshotPath = r_screenshotPath r,
                       screenshotData = Some b,
                       thumbnailPath = r_thumbnailPath r,
                       userAgent = escapeUserAgent E
                         (prettyUserAgent (parsedUserAgent (pathPattern_data w1))),
                       s_quarantineAttempt = quarantineAttempt (pathPattern_data w1),
                       takenOnFail = True \<rparr>]
          | None \<Rightarrow>
              fst ?run = Inl TypeError
              \<and> screenshots (testEntry (snd ?run)) = screenshots (testEntry w)"
      unfolding q pushScreenshot_returns using f
      by (cases "testRuns (testEntry w) (browserId c)") simp_all
  qed
  with cs(1) n show ?thesis by blast
qed

theorem failure_capture_kept_in_memory_witness:
  "enabled capturer0 \<and> autoTakeOnFails capturer0
   \<and> fst (resolve (demo Produces) capturer0 True noOptions world0)
       = Inr \<lparr> r_thumbnails = True, r_screenshotPath = ''/out/errors/i.png'',
               r_thumbnailPath = ''/out/errors/thumbnails/i.png'', r_tempPath = ''/tmp/errors/i.png'' \<rparr>
   \<and> fst (capture (demo Produces) capturer0 True noOptions world0) = Inr (Some ''/out/errors/i.png'')
   \<and> calls (snd (capture (demo Produces) capturer0 True noOptions world0))
       = [TakeScreenshot ''b1'' ''/tmp/errors/i.png'' None None False, Stat ''/tmp/errors/i.png'',
          ReadPngFile ''/tmp/errors/i.png'', CropScreenshot [1, 2, 3] None None ''/tmp/errors/i.png'' None,
          ReadFile ''/tmp/errors/i.png'']
   \<and> list_all (\<lambda>ev. \<not> publishes ev \<and> set (written ev) \<subseteq> {''/tmp/errors/i.png''})
       (calls (snd (capture (demo Produces) capturer0 True noOptions world0)))
   \<and> map (\<lambda>s. (screenshotData s, takenOnFail s))
       (screenshots (testEntry (snd (capture (demo Produces) capturer0 True noOptions world0))))
       = [(Some [1, 2, 3], True)]
   \<and> ext (snd (capture (demo Produces) capturer0 True noOptions world0)) ''/out/errors/i.png'' = None"
proof -
  let ?run = "capture (demo Produces) capturer0 True noOptions world0"
  let ?r = "\<lparr> r_thumbnails = True, r_screenshotPath = ''/out/errors/i.png'',
               r_thumbnailPath = ''/out/errors/thumbnails/i.png'', r_tempPath = ''/tmp/errors/i.png'' \<rparr>"
  let ?x = "[''/tmp/errors/i.png'' \<mapsto> [1, 2, 3 :: nat]]"
  have r: "fst (resolve (demo Produces) capturer0 True noOptions world0) = Inr ?r"
    by (simp add: demo_defs)
  then have h: "resolve (demo Produces) capturer0 True noOptions world0
      = (Inr ?r, snd (resolve (demo Produces) capturer0 True noOptions world0))"
    by (metis prod.collapse)
  have en: "enabled capturer0" "autoTakeOnFails capturer0"
    by (simp_all add: capturer0_def Capturer_def truthy_def)
  have t: "provider_takeScreenshot (demo Produces) (browserId capturer0) (r_tempPath ?r)
           (map_option width (getClientAreaDimensions (o_pageDimensions noOptions)))
           (map_option height (getClientAreaDimensions (o_pageDimensions noOptions)))
           (case o_fullPage noOptions of None \<Rightarrow> fullPage capturer0 | Some b \<Rightarrow> b) (ext world0)
         = (Inr (), ?x)"
    by (simp add: demo_def world0_def)
  have s: "stat (demo Produces) (r_tempPath ?r) ?x = (Inr True, ?x)"
    by (simp add: demo_def)
  have d: "readPngFile (demo Produces) (r_tempPath ?r) ?x = (Inr [1, 2, 3], ?x)"
    by (simp add: demo_def readBytes_def)
  have k: "cropScreenshot (demo Produces) [1, 2, 3] (o_markSeed noOptions)
             (getClientAreaDimensions (o_pageDimensions noOptions)) (r_tempPath ?r)
             (getCropDimensions (o_cropDimensions noOptions) (o_pageDimensions noOptions)) ?x
           = (Inr None, ?x)"
    by (simp add: demo_def noOptions_def getCropDimensions_def)
  have o: "case None :: bytes option of
             None \<Rightarrow> ?x = ?x
           | Some img \<Rightarrow> writePng (demo Produces) (r_tempPath ?r) img ?x = (Inr (), ?x)"
    by simp
  have b: "readFile (demo Produces) (r_tempPath ?r) ?x = (Inr [1, 2, 3], ?x)"
    by (simp add: demo_def readBytes_def)
  have u: "testRuns (testEntry world0) (browserId capturer0) = Some \<lparr> testRun_id = ''run1'' \<rparr>"
    by (simp add: world0_def capturer0_def Capturer_def)
  have e: "calls world0 = []" "screenshots (testEntry world0) = []"
    by (simp_all add: world0_def)
  from failure_capture_kept_in_memory [OF en, of "demo Produces" noOptions world0]
  obtain cs where cs: "calls (snd ?run) = cs" "list_all (\<lambda>ev. \<not> publishes ev) cs"
    and rest: "\<forall>r w1. resolve (demo Produces) capturer0 True noOptions world0 = (Inr r, w1) \<longrightarrow>
                list_all (\<lambda>ev. set (written ev) \<subseteq> {r_tempPath r}) cs
                \<and> (\<forall>x1 x2 png x3 cropped x4 x5 b x6.
                     provider_takeScreenshot (demo Produces) (browserId capturer0) (r_tempPath r)
                       (map_option width (getClientAreaDimensions (o_pageDimensions noOptions)))
                       (map_option height (getClientAreaDimensions (o_pageDimensions noOptions)))
                       (case o_fullPage noOptions of None \<Rightarrow> fullPage capturer0 | Some b \<Rightarrow> b) (ext world0)
                         = (Inr (), x1)
                     \<longrightarrow> stat (demo Produces) (r_tempPath r) x1 = (Inr True, x2)
                     \<longrightarrow> readPngFile (demo Produces) (r_tempPath r) x2 = (Inr png, x3)
                     \<longrightarrow> cropScreenshot (demo Produces) png (o_markSeed noOptions)
                           (getClientAreaDimensions (o_pageDimensions noOptions))
                           (r_tempPath r)
                           (getCropDimensions (o_cropDimensions noOptions) (o_pageDimensions noOptions)) x3
                         = (Inr cropped, x4)
                     \<longrightarrow> (case cropped of
                            None \<Rightarrow> x5 = x4
                          | Some img \<Rightarrow> writePng (demo Produces) (r_tempPath r) img x4 = (Inr (), x5))
                     \<longrightarrow> readFile (demo Produces) (r_tempPath r) x5 = (Inr b, x6)
                     \<longrightarrow> cs = capture_calls capturer0 noOptions r @ crop_calls noOptions r png cropped
                         \<and> ext (snd ?run) = x6
                         \<and> (case testRuns (testEntry world0) (browserId capturer0) of
                              Some run \<Rightarrow>
                                fst ?run = Inr (Some (r_screenshotPath r))
                                \<and> screenshots (testEntry (snd ?run))
                                    = screenshots (testEntry world0) @
                                      [\<lparr> testRunId = testRun_id run,
                                         screenshotPath = r_screenshotPath r,
                                         screenshotData = Some b,
                                         thumbnailPath = r_thumbnailPath r,
                                         userAgent = escapeUserAgent (demo Produces)
                                           (prettyUserAgent (parsedUserAgent (pathPattern_data w1))),
                                         s_quarantineAttempt = quarantineAttempt (pathPattern_data w1),
                                         takenOnFail = True \<rparr>]
                            | None \<Rightarrow>
                                fst ?run = Inl TypeError
                                \<and> screenshots (testEntry (snd ?run))
                                    = screenshots (testEntry world0)))"
    unfolding e by auto
  note at = rest [THEN spec, THEN spec, THEN mp, OF h]
  note paths = at [THEN conjunct1]
  note fwd = at [THEN conjunct2, THEN spec, THEN spec, THEN spec, THEN spec, THEN spec, THEN spec,
    THEN spec, THEN spec, THEN spec, THEN mp, THEN mp, THEN mp, THEN mp, THEN mp, THEN mp,
    OF t s d k o b]
  from fwd have c: "cs = capture_calls capturer0 noOptions ?r @ crop_calls noOptions ?r [1, 2, 3] None"
    and x: "ext (snd ?run) = ?x"
    and v: "fst ?run = Inr (Some ''/out/errors/i.png'')"
    and l: "map (\<lambda>s. (screenshotData s, takenOnFail s)) (screenshots (testEntry (snd ?run)))
              = [(Some [1, 2, 3], True)]"
    unfolding u e by simp_all
  from c have c': "cs = [TakeScreenshot ''b1'' ''/tmp/errors/i.png'' None None False, Stat ''/tmp/errors/i.png'',
          ReadPngFile ''/tmp/errors/i.png'', CropScreenshot [1, 2, 3] None None ''/tmp/errors/i.png'' None,
          ReadFile ''/tmp/errors/i.png'']"
    by (simp add: capture_calls_def crop_calls_def capturer0_def Capturer_def noOptions_def
          getClientAreaDimensions_def getCropDimensions_def)
  from cs(2) paths have a: "list_all (\<lambda>ev. \<not> publishes ev \<and> set (written ev) \<subseteq> {''/tmp/errors/i.png''}) cs"
    by (simp add: list_all_iff)
  from r en v c' a l x show ?thesis
    unfolding cs(1) by simp
qed

text \<open>
  C4 as stated fails where it says that the destination file is never written. The staging
  path is the destination with the first occurrence of the base directory replaced by the
  temporary directory. A base directory written \<^verbatim>\<open>./out\<close> does not occur in a destination
  that \<^verbatim>\<open>path.join\<close> has normalized to \<^verbatim>\<open>out/errors/i.png\<close>, so the staging path is the
  destination itself, and the raw capture of a failure capture with the flag set writes the
  destination file.
\<close>

theorem failure_capture_counterexample:
  "enabled capturer1 \<and> autoTakeOnFails capturer1
   \<and> baseScreenshotsPath capturer1 = Some ''./out''
   \<and> joinPath (relative Produces) [''./out'', ''errors/i.png''] = ''out/errors/i.png''
   \<and> fst (resolve (relative Produces) capturer1 True noOptions world0)
       = Inr \<lparr> r_thumbnails = True, r_screenshotPath = ''out/errors/i.png'',
               r_thumbnailPath = ''out/errors/thumbnails/i.png'', r_tempPath = ''out/errors/i.png'' \<rparr>
   \<and> ext world0 ''out/errors/i.png'' = None
   \<and> fst (capture (relative Produces) capturer1 True noOptions world0) = Inr (Some ''out/errors/i.png'')
   \<and> calls (snd (capture (relative Produces) capturer1 True noOptions world0))
       = [TakeScreenshot ''b1'' ''out/errors/i.png'' None None False, Stat ''out/errors/i.png'',
          ReadPngFile ''out/errors/i.png'', CropScreenshot [1, 2, 3] None None ''out/errors/i.png'' None,
          ReadFile ''out/errors/i.png'']
   \<and> ext (snd (capture (relative Produces) capturer1 True noOptions world0)) ''out/errors/i.png''
       = Some [1, 2, 3]"
  by (simp add: demo_defs relative_def capturer1_def stripDot_def)

text \<open>
  C5, as the code has it. A capturer built without a base output directory is disabled,
  and a disabled capturer returns null and leaves the world as it is: the serializer, the
  call log, the counters and the test entry. An enabled invocation that returns appends
  exactly one record; one that fails with an error appends none.
\<close>

theorem capture_disabled_or_recorded:
  "(\<not> truthy base \<longrightarrow>
      capture E (Capturer base connection_id fp th tmp auto) forError opts w = (Inr None, w))
   \<and> (enabled c \<and> capture E c forError opts w = (res, w') \<longrightarrow>
        (case res of
           Inr p \<Rightarrow> \<exists>s. screenshots (testEntry w') = screenshots (testEntry w) @ [s]
         | Inl e \<Rightarrow> screenshots (testEntry w') = screenshots (testEntry w)))"
  using capture_disabled [of "Capturer base connection_id fp th tmp auto" E forError opts w]
    capture_screenshots [of c E forError opts w res w']
  by (simp add: Capturer_def)

theorem capture_disabled_or_recorded_witness:
  "\<not> truthy None
   \<and> capture (demo Produces) (Capturer None ''b1'' False True ''/tmp'' False) False noOptions world0
       = (Inr None, world0)
   \<and> enabled capturer0
   \<and> fst (capture (demo Produces) capturer0 False noOptions world0) = Inr (Some ''/out/i.png'')
   \<and> length (screenshots (testEntry (snd (capture (demo Produces) capturer0 False noOptions world0))))
       = length (screenshots (testEntry world0)) + 1"
proof -
  have r: "fst (capture (demo Produces) capturer0 False noOptions world0) = Inr (Some ''/out/i.png'')"
    by (simp add: demo_defs)
  have en: "enabled capturer0" "\<not> truthy None"
    by (simp_all add: capturer0_def Capturer_def truthy_def)
  have h: "capture (demo Produces) capturer0 False noOptions world0
      = (Inr (Some ''/out/i.png''), snd (capture (demo Produces) capturer0 False noOptions world0))"
    using r by (metis prod.collapse)
  from capture_disabled_or_recorded [where base = None and E = "demo Produces" and connection_id = "''b1''"
      and fp = False and th = True and tmp = "''/tmp''" and auto = False and forError = False
      and opts = noOptions and w = world0 and c = capturer0
      and res = "Inr (Some ''/out/i.png'')"
      and w' = "snd (capture (demo Produces) capturer0 False noOptions world0)"] h r en
  show ?thesis by auto
qed

text \<open>
  C5 as stated fails: an enabled invocation whose browser fails to respond is rejected
  and appends no record.
\<close>

theorem capture_record_counterexample:
  "enabled capturer0
   \<and> fst (capture (demo Crashes) capturer0 False noOptions world0) = Inl (Rejected ''browser disconnected'')
   \<and> length (screenshots (testEntry (snd (capture (demo Crashes) capturer0 False noOptions world0))))
       \<noteq> length (screenshots (testEntry world0)) + 1"
  by (simp add: demo_defs)

text \<open>
  C6, as the code has it. For an enabled invocation whose destination resolves: when the
  staging file exists and decodes, the cropping collaborator is invoked with the decoded
  image, the marker seed and the scaled rectangle, whether or not a crop rectangle or a
  marker seed was supplied; and whenever the final bytes are read back, the calls made up
  to there are the raw capture, the check, the decoding, the cropping and, exactly when
  the cropping collaborator returned a modified image, the overwriting of the staged file
  with that image.
\<close>

theorem crop_invoked_then_overwritten:
  assumes "enabled c"
    and "resolve E c forError opts w = (Inr r, w1)"
    and "capture E c forError opts w = (res, w')"
  shows "\<exists>cs. calls w' = calls w @ cs
     \<and> (\<forall>x1 x2 png x3.
          provider_takeScreenshot E (browserId c) (r_tempPath r)
            (map_option width (getClientAreaDimensions (o_pageDimensions opts)))
            (map_option height (getClientAreaDimensions (o_pageDimensions opts)))
            (case o_fullPage opts of None \<Rightarrow> fullPage c | Some b \<Rightarrow> b) (ext w) = (Inr (), x1)
          \<and> stat E (r_tempPath r) x1 = (Inr True, x2)
          \<and> readPngFile E (r_tempPath r) x2 = (Inr png, x3) \<longrightarrow>
          CropScreenshot png (o_markSeed opts) (getClientAreaDimensions (o_pageDimensions opts))
            (r_tempPath r) (getCropDimensions (o_cropDimensions opts) (o_pageDimensions opts)) \<in> set cs)
     \<and> (ReadFile (r_tempPath r) \<in> set cs \<longrightarrow>
          (\<exists>png cropped x1 x2 post.
             cropScreenshot E png (o_markSeed opts) (getClientAreaDimensions (o_pageDimensions opts))
               (r_tempPath r) (getCropDimensions (o_cropDimensions opts) (o_pageDimensions opts)) x1
               = (Inr cropped, x2)
           \<and> cs = capture_calls c opts r @ crop_calls opts r png cropped @ post))"
proof -
  note f = resolve_frame [OF assms(2)]
  from assms(1,3) obtain pres w2
    where p: "pipeline E c forError opts r w1 = (pres, w2)" and c: "calls w' = calls w2"
  proof (cases rule: capture_cases)
    case (unresolved e)
    with assms(2) show ?thesis by simp
  next
    case (failed r' w1' e)
    with assms(2) that show ?thesis by simp
  next
    case (completed r' w1' d w2)
    with assms(2) pushScreenshot_cases [OF completed(3)] that show ?thesis by simp
  qed
  from pipeline_shape [OF p] obtain cs
    where cs: "calls w2 = calls w1 @ cs"
      and sh: "ReadFile (r_tempPath r) \<in> set cs \<longrightarrow>
          (\<exists>png cropped x1 x2 post.
             cropScreenshot E png (o_markSeed opts) (getClientAreaDimensions (o_pageDimensions opts))
               (r_tempPath r) (getCropDimensions (o_cropDimensions opts) (o_pageDimensions opts)) x1
               = (Inr cropped, x2)
           \<and> cs = capture_calls c opts r @ crop_calls opts r png cropped @ post)"
    by blast
  have "CropScreenshot png (o_markSeed opts) (getClientAreaDimensions (o_pageDimensions opts))
            (r_tempPath r) (getCropDimensions (o_cropDimensions opts) (o_pageDimensions opts)) \<in> set cs"
    if "provider_takeScreenshot E (browserId c) (r_tempPath r)
            (map_option width (getClientAreaDimensions (o_pageDimensions opts)))
            (map_option height (getClientAreaDimensions (o_pageDimensions opts)))
            (case o_fullPage opts of None \<Rightarrow> fullPage c | Some b \<Rightarrow> b) (ext w) = (Inr (), x1)"
      and "stat E (r_tempPath r) x1 = (Inr True, x2)"
      and "readPngFile E (r_tempPath r) x2 = (Inr png, x3)" for x1 x2 png x3
  proof -
    from that(1) f have "provider_takeScreenshot E (browserId c) (r_tempPath r)
            (map_option width (getClientAreaDimensions (o_pageDimensions opts)))
            (map_option height (getClientAreaDimensions (o_pageDimensions opts)))
            (case o_fullPage opts of None \<Rightarrow> fullPage c | Some b \<Rightarrow> b) (ext w1) = (Inr (), x1)"
      by simp
    from pipeline_crop_invoked [OF p this that(2,3)] cs show ?thesis by auto
  qed
  with cs sh c f show ?thesis by (intro exI [of _ cs]) auto
qed

text \<open>
  C6 as stated fails: with neither a crop rectangle nor a marker seed in the request, the
  cropping collaborator is invoked all the same.
\<close>

theorem crop_invoked_counterexample:
  "enabled capturer0 \<and> o_cropDimensions noOptions = None \<and> o_markSeed noOptions = None
   \<and> CropScreenshot [1, 2, 3] None None ''/tmp/i.png'' None
       \<in> set (calls (snd (capture (demo Produces) capturer0 False noOptions world0)))"
  by (simp add: demo_defs)

theorem crop_invoked_then_overwritten_witness:
  "enabled capturer0
   \<and> fst (resolve (demo Produces) capturer0 False seededOptions world0) = Inr resolved0
   \<and> calls (snd (capture (demo Produces) capturer0 False seededOptions world0))
       = [TakeScreenshot ''b1'' ''/tmp/i.png'' None None False, Stat ''/tmp/i.png'',
          ReadPngFile ''/tmp/i.png'', CropScreenshot [1, 2, 3] (Some [7]) None ''/tmp/i.png'' None,
          WritePng ''/tmp/i.png'' [0, 1, 2, 3], ReadFile ''/tmp/i.png'',
          MakeDir ''/out'', WriteFile ''/out/i.png'' [0, 1, 2, 3],
          GenerateThumbnail ''/out/i.png'' ''/out/thumbnails/i.png'']
   \<and> (\<exists>png cropped x1 x2 post.
         cropScreenshot (demo Produces) png (Some [7]) None ''/tmp/i.png'' None x1 = (Inr cropped, x2)
       \<and> calls (snd (capture (demo Produces) capturer0 False seededOptions world0))
           = capture_calls capturer0 seededOptions resolved0 @ crop_calls seededOptions resolved0 png cropped @ post)"
proof -
  let ?run = "capture (demo Produces) capturer0 False seededOptions world0"
  have r: "fst (resolve (demo Produces) capturer0 False seededOptions world0) = Inr resolved0"
    by (simp add: demo_defs seededOptions_def resolved0_def)
  then have h: "resolve (demo Produces) capturer0 False seededOptions world0
      = (Inr resolved0, snd (resolve (demo Produces) capturer0 False seededOptions world0))"
    by (metis prod.collapse)
  have en: "enabled capturer0"
    by (simp add: capturer0_def Capturer_def truthy_def)
  have l: "calls (snd ?run)
       = [TakeScreenshot ''b1'' ''/tmp/i.png'' None None False, Stat ''/tmp/i.png'',
          ReadPngFile ''/tmp/i.png'', CropScreenshot [1, 2, 3] (Some [7]) None ''/tmp/i.png'' None,
          WritePng ''/tmp/i.png'' [0, 1, 2, 3], ReadFile ''/tmp/i.png'',
          MakeDir ''/out'', WriteFile ''/out/i.png'' [0, 1, 2, 3],
          GenerateThumbnail ''/out/i.png'' ''/out/thumbnails/i.png'']"
    by (simp add: demo_defs seededOptions_def)
  have e: "calls world0 = []" by (simp add: world0_def)
  have o: "o_markSeed seededOptions = Some [7]" "o_pageDimensions seededOptions = None"
    "o_cropDimensions seededOptions = None" "r_tempPath resolved0 = ''/tmp/i.png''"
    by (simp_all add: seededOptions_def noOptions_def resolved0_def)
  from crop_invoked_then_overwritten [OF en h, of "fst ?run" "snd ?run"]
  obtain cs where cs: "calls (snd ?run) = cs"
    and sh: "ReadFile (r_tempPath resolved0) \<in> set cs \<longrightarrow>
          (\<exists>png cropped x1 x2 post.
             cropScreenshot (demo Produces) png (o_markSeed seededOptions)
               (getClientAreaDimensions (o_pageDimensions seededOptions))
               (r_tempPath resolved0)
               (getCropDimensions (o_cropDimensions seededOptions) (o_pageDimensions seededOptions)) x1
               = (Inr cropped, x2)
           \<and> cs = capture_calls capturer0 seededOptions resolved0 @ crop_calls seededOptions resolved0 png cropped @ post)"
    unfolding e by auto
  note csl = trans [OF cs [symmetric] l]
  have "ReadFile (r_tempPath resolved0) \<in> set cs"
    unfolding csl by (simp add: o)
  with sh cs have "\<exists>png cropped x1 x2 post.
         cropScreenshot (demo Produces) png (Some [7]) None ''/tmp/i.png'' None x1 = (Inr cropped, x2)
       \<and> calls (snd ?run)
           = capture_calls capturer0 seededOptions resolved0 @ crop_calls seededOptions resolved0 png cropped @ post"
    by (simp add: o getClientAreaDimensions_def getCropDimensions_def)
  with en r l show ?thesis by simp
qed

text \<open>
  C7. Each client-area dimension is the floor of the product, as JavaScript computes it,
  of the device-pixel-ratio and the dimension without scrollbar: the document dimension
  if the body dimension exceeds the full one, else the body dimension if the document
  dimension exceeds the full one, else the larger of the two. When both exceed the full
  dimension, the document dimension is used.
\<close>

theorem client_area_dimensions:
  "getClientAreaDimensions (Some pd) =
     Some \<lparr> width = \<lfloor>mul (dpr pd)
               (if bodyWidth pd > innerWidth pd then documentWidth pd
                else if documentWidth pd > innerWidth pd then bodyWidth pd
                else max (documentWidth pd) (bodyWidth pd))\<rfloor>,
            height = \<lfloor>mul (dpr pd)
               (if bodyHeight pd > innerHeight pd then documentHeight pd
                else if documentHeight pd > innerHeight pd then bodyHeight pd
                else max (documentHeight pd) (bodyHeight pd))\<rfloor> \<rparr>
   \<and> (bodyWidth pd > innerWidth pd \<and> documentWidth pd > innerWidth pd \<longrightarrow>
        map_option width (getClientAreaDimensions (Some pd)) = Some \<lfloor>mul (dpr pd) (documentWidth pd)\<rfloor>)
   \<and> (bodyHeight pd > innerHeight pd \<and> documentHeight pd > innerHeight pd \<longrightarrow>
        map_option height (getClientAreaDimensions (Some pd)) = Some \<lfloor>mul (dpr pd) (documentHeight pd)\<rfloor>)"
  by (simp add: getClientAreaDimensions_def getDimensionWithoutScrollbar_def Math_floor_def
        Math_max_def max_def mul_commute [of _ "dpr pd"])

theorem client_area_dimensions_witness:
  "bodyWidth geometry0 > innerWidth geometry0 \<and> documentWidth geometry0 > innerWidth geometry0
   \<and> bodyHeight geometry0 > innerHeight geometry0 \<and> documentHeight geometry0 > innerHeight geometry0
   \<and> mul (dpr geometry0) (documentWidth geometry0) = 700
   \<and> mul (dpr geometry0) (documentHeight geometry0) = 7
   \<and> getClientAreaDimensions (Some geometry0) = Some \<lparr> width = 700, height = 7 \<rparr>"
  using client_area_dimensions [of geometry0]
  by (simp add: geometry0_def mul_dpr0 mul_commute [of dpr0])

text \<open>
  C8. A crop rectangle supplied together with the page geometry is scaled edge by edge:
  each edge of the result is the product, as JavaScript computes it, of the edge and the
  device-pixel-ratio, rounded to the nearest integer. Every call of the cropping
  collaborator that the invocation makes receives this rectangle.
\<close>

theorem crop_edges_rounded:
  "getCropDimensions (Some cd) (Some pd) =
     Some \<lparr> crop_top = round (mul (crop_top cd) (dpr pd)),
            crop_left = round (mul (crop_left cd) (dpr pd)),
            crop_bottom = round (mul (crop_bottom cd) (dpr pd)),
            crop_right = round (mul (crop_right cd) (dpr pd)) \<rparr>
   \<and> (o_cropDimensions opts = Some cd \<and> o_pageDimensions opts = Some pd
        \<and> capture E c forError opts w = (res, w') \<longrightarrow>
        (\<exists>cs. calls w' = calls w @ cs
           \<and> list_all (\<lambda>ev. case ev of
                 CropScreenshot png seed area p rect \<Rightarrow>
                   rect = Some \<lparr> crop_top = round (mul (crop_top cd) (dpr pd)),
                                 crop_left = round (mul (crop_left cd) (dpr pd)),
                                 crop_bottom = round (mul (crop_bottom cd) (dpr pd)),
                                 crop_right = round (mul (crop_right cd) (dpr pd)) \<rparr>
               | _ \<Rightarrow> True) cs))"
proof -
  have scaled: "getCropDimensions (Some cd) (Some pd) =
     Some \<lparr> crop_top = round (mul (crop_top cd) (dpr pd)),
            crop_left = round (mul (crop_left cd) (dpr pd)),
            crop_bottom = round (mul (crop_bottom cd) (dpr pd)),
            crop_right = round (mul (crop_right cd) (dpr pd)) \<rparr>"
    by (simp add: getCropDimensions_def Math_round_round)
  show ?thesis
  proof (intro conjI impI)
    show "getCropDimensions (Some cd) (Some pd) =
     Some \<lparr> crop_top = round (mul (crop_top cd) (dpr pd)),
            crop_left = round (mul (crop_left cd) (dpr pd)),
            crop_bottom = round (mul (crop_bottom cd) (dpr pd)),
            crop_right = round (mul (crop_right cd) (dpr pd)) \<rparr>"
      by (fact scaled)
  next
    assume a: "o_cropDimensions opts = Some cd \<and> o_pageDimensions opts = Some pd
        \<and> capture E c forError opts w = (res, w')"
    then have "capture E c forError opts w = (res, w')" by simp
    from capture_crop_argument [OF this] obtain cs
      where cs: "calls w' = calls w @ cs"
        and all: "list_all (\<lambda>ev. case ev of
                 CropScreenshot png seed area p rect \<Rightarrow>
                   rect = getCropDimensions (o_cropDimensions opts) (o_pageDimensions opts)
               | _ \<Rightarrow> True) cs"
      by blast
    from all a scaled
    have "list_all (\<lambda>ev. case ev of
                 CropScreenshot png seed area p rect \<Rightarrow>
                   rect = Some \<lparr> crop_top = round (mul (crop_top cd) (dpr pd)),
                                 crop_left = round (mul (crop_left cd) (dpr pd)),
                                 crop_bottom = round (mul (crop_bottom cd) (dpr pd)),
                                 crop_right = round (mul (crop_right cd) (dpr pd)) \<rparr>
               | _ \<Rightarrow> True) cs"
      by (auto simp: list_all_iff split: call.splits)
    with cs show "\<exists>cs. calls w' = calls w @ cs
           \<and> list_all (\<lambda>ev. case ev of
                 CropScreenshot png seed area p rect \<Rightarrow>
                   rect = Some \<lparr> crop_top = round (mul (crop_top cd) (dpr pd)),
                                 crop_left = round (mul (crop_left cd) (dpr pd)),
                                 crop_bottom = round (mul (crop_bottom cd) (dpr pd)),
                                 crop_right = round (mul (crop_right cd) (dpr pd)) \<rparr>
               | _ \<Rightarrow> True) cs"
      by blast
  qed
qed

theorem crop_edges_rounded_witness:
  "o_cropDimensions croppedOptions = Some rectangle0
   \<and> o_pageDimensions croppedOptions = Some geometry0
   \<and> getCropDimensions (Some rectangle0) (Some geometry0) =
       Some \<lparr> crop_top = 4, crop_left = 2, crop_bottom = 7, crop_right = 11 \<rparr>
   \<and> list_all (\<lambda>ev. case ev of
         CropScreenshot png seed area p rect \<Rightarrow>
           rect = Some \<lparr> crop_top = 4, crop_left = 2, crop_bottom = 7, crop_right = 11 \<rparr>
       | _ \<Rightarrow> True)
       (calls (snd (capture (demo Produces) capturer0 False croppedOptions world0)))
   \<and> CropScreenshot [1, 2, 3] None (Some \<lparr> width = 700, height = 7 \<rparr>) ''/tmp/i.png''
         (Some \<lparr> crop_top = 4, crop_left = 2, crop_bottom = 7, crop_right = 11 \<rparr>)
       \<in> set (calls (snd (capture (demo Produces) capturer0 False croppedOptions world0)))"
proof -
  have m: "CropScreenshot [1, 2, 3] None (Some \<lparr> width = 700, height = 7 \<rparr>) ''/tmp/i.png''
         (Some \<lparr> crop_top = 4, crop_left = 2, crop_bottom = 7, crop_right = 11 \<rparr>)
       \<in> set (calls (snd (capture (demo Produces) capturer0 False croppedOptions world0)))"
    by (simp add: demo_defs croppedOptions_def rectangle0_def geometry0_def mul_dpr0)
  have o: "o_cropDimensions croppedOptions = Some rectangle0
      \<and> o_pageDimensions croppedOptions = Some geometry0
      \<and> capture (demo Produces) capturer0 False croppedOptions world0
          = (fst (capture (demo Produces) capturer0 False croppedOptions world0),
             snd (capture (demo Produces) capturer0 False croppedOptions world0))"
    by (simp add: croppedOptions_def noOptions_def)
  have r: "round (mul (crop_top rectangle0) (dpr geometry0)) = 4"
    "round (mul (crop_left rectangle0) (dpr geometry0)) = 2"
    "round (mul (crop_bottom rectangle0) (dpr geometry0)) = 7"
    "round (mul (crop_right rectangle0) (dpr geometry0)) = 11"
    by (simp_all add: rectangle0_def geometry0_def round_def mul_dpr0)
  have e: "calls world0 = []" by (simp add: world0_def)
  from crop_edges_rounded [of rectangle0 geometry0 croppedOptions "demo Produces" capturer0 False world0
      "fst (capture (demo Produces) capturer0 False croppedOptions world0)"
      "snd (capture (demo Produces) capturer0 False croppedOptions world0)"] o
  show ?thesis using m unfolding r e by auto
qed

text \<open>
  C9. An enabled invocation with an explicit (non-empty) destination path changes neither
  counter, whatever its outcome. The destination it resolves, and returns when it
  completes, is the sanitized explicit path joined onto the base output directory. With
  the sanitizer of the specification, a path without the default extension gets a dot and
  the default extension appended, and a path that has it is kept.
\<close>

theorem explicit_path_resolution:
  assumes "enabled c" and "o_customPath opts = Some p" and "p \<noteq> []"
    and "capture E c forError opts w = (res, w')"
  shows "fileIndex (pathPattern_data w') = fileIndex (pathPattern_data w)
       \<and> errorFileIndex (pathPattern_data w') = errorFileIndex (pathPattern_data w)
       \<and> (\<forall>r w1. resolve E c forError opts w = (Inr r, w1) \<longrightarrow>
            (\<exists>base. baseScreenshotsPath c = Some base
               \<and> r_screenshotPath r = joinPath E [base, correctFilePath E p (DEFAULT_SCREENSHOT_EXTENSION E)]))
       \<and> (\<forall>path. res = Inr path \<longrightarrow>
            (\<exists>base. baseScreenshotsPath c = Some base
               \<and> path = Some (joinPath E [base, correctFilePath E p (DEFAULT_SCREENSHOT_EXTENSION E)])))
       \<and> (correctFilePath E = correctFilePath_spec \<longrightarrow>
            correctFilePath E p (DEFAULT_SCREENSHOT_EXTENSION E) =
              (if hasExtension p (DEFAULT_SCREENSHOT_EXTENSION E) then p
               else p @ ''.'' @ DEFAULT_SCREENSHOT_EXTENSION E))"
proof -
  have t: "truthy (o_customPath opts)" "toString (o_customPath opts) = p"
    using assms(2,3) by (simp_all add: truthy_def toString_def)
  from capture_counters [OF assms(1,4)] t
  have d: "pathPattern_data w' = pathPattern_data w" by simp
  have r: "\<exists>base. baseScreenshotsPath c = Some base
               \<and> r_screenshotPath r = joinPath E [base, correctFilePath E p (DEFAULT_SCREENSHOT_EXTENSION E)]"
    if "resolve E c forError opts w = (Inr r, w1)" for r w1
    using resolve_custom_path [OF t(1) that] t(2) by simp
  have "\<exists>base. baseScreenshotsPath c = Some base
               \<and> path = Some (joinPath E [base, correctFilePath E p (DEFAULT_SCREENSHOT_EXTENSION E)])"
    if ret: "res = Inr path" for path
    using assms(1,4)
  proof (cases rule: capture_cases)
    case (unresolved e)
    with ret show ?thesis by simp
  next
    case (failed r w1 e)
    with ret show ?thesis by simp
  next
    case (completed rr w1 dd w2)
    from pushScreenshot_cases [OF completed(3)] ret have "path = Some (r_screenshotPath rr)"
      by simp
    with r [OF completed(1)] show ?thesis by auto
  qed
  with d r show ?thesis by (simp add: correctFilePath_spec_def)
qed

theorem explicit_path_resolution_witness:
  "enabled capturer0 \<and> o_customPath (noOptions\<lparr> o_customPath := Some ''shot'' \<rparr>) = Some ''shot''
   \<and> ''shot'' \<noteq> []
   \<and> DEFAULT_SCREENSHOT_EXTENSION (demo Produces) = ''png''
   \<and> correctFilePath (demo Produces) ''shot'' ''png'' = ''shot.png''
   \<and> fst (capture (demo Produces) capturer0 False (noOptions\<lparr> o_customPath := Some ''shot'' \<rparr>) world0)
       = Inr (Some ''/out/shot.png'')
   \<and> fileIndex (pathPattern_data (snd (capture (demo Produces) capturer0 False
        (noOptions\<lparr> o_customPath := Some ''shot'' \<rparr>) world0))) = 1
   \<and> errorFileIndex (pathPattern_data (snd (capture (demo Produces) capturer0 False
        (noOptions\<lparr> o_customPath := Some ''shot'' \<rparr>) world0))) = 1"
proof -
  let ?opts = "noOptions\<lparr> o_customPath := Some ''shot'' \<rparr>"
  let ?run = "capture (demo Produces) capturer0 False ?opts world0"
  have r: "fst ?run = Inr (Some ''/out/shot.png'')"
    by (simp add: demo_defs)
  have en: "enabled capturer0"
    by (simp add: capturer0_def Capturer_def truthy_def)
  have o: "o_customPath ?opts = Some ''shot''" "''shot'' \<noteq> []" by simp_all
  have h: "?run = (fst ?run, snd ?run)" by simp
  have w: "fileIndex (pathPattern_data world0) = 1" "errorFileIndex (pathPattern_data world0) = 1"
    by (simp_all add: world0_def)
  have x: "DEFAULT_SCREENSHOT_EXTENSION (demo Produces) = ''png''"
    "correctFilePath (demo Produces) = correctFilePath_spec"
    "hasExtension ''shot'' ''png'' = False"
    by (simp_all add: demo_def hasExtension_def suffix_def)
  from explicit_path_resolution [OF en o h] r en w x
  show ?thesis by simp
qed

text \<open>
  C10. Scaling yields no rectangle when the crop rectangle or the page geometry is absent,
  so every call of the cropping collaborator then receives a null rectangle; a crop
  rectangle given without page geometry changes nothing: the invocation behaves as it
  does without the rectangle.
\<close>

theorem crop_rectangle_needs_geometry:
  "(cd = None \<or> pd = None \<longrightarrow> getCropDimensions cd pd = None)
   \<and> ((o_cropDimensions opts = None \<or> o_pageDimensions opts = None)
        \<and> capture E c forError opts w = (res, w') \<longrightarrow>
        (\<exists>cs. calls w' = calls w @ cs
           \<and> list_all (\<lambda>ev. case ev of CropScreenshot png seed area p rect \<Rightarrow> rect = None | _ \<Rightarrow> True) cs))
   \<and> (o_pageDimensions opts = None \<longrightarrow>
        capture E c forError (opts\<lparr> o_cropDimensions := Some rectangle \<rparr>) w
          = capture E c forError (opts\<lparr> o_cropDimensions := None \<rparr>) w)"
proof (intro conjI impI)
  assume "cd = None \<or> pd = None"
  then show "getCropDimensions cd pd = None"
    by (auto simp: getCropDimensions_def split: option.splits)
next
  assume a: "(o_cropDimensions opts = None \<or> o_pageDimensions opts = None)
        \<and> capture E c forError opts w = (res, w')"
  then have n: "getCropDimensions (o_cropDimensions opts) (o_pageDimensions opts) = None"
    by (auto simp: getCropDimensions_def split: option.splits)
  from a have "capture E c forError opts w = (res, w')" by simp
  from capture_crop_argument [OF this] obtain cs
    where cs: "calls w' = calls w @ cs"
      and all: "list_all (\<lambda>ev. case ev of
                 CropScreenshot png seed area p rect \<Rightarrow>
                   rect = getCropDimensions (o_cropDimensions opts) (o_pageDimensions opts)
               | _ \<Rightarrow> True) cs"
    by blast
  from all n
  have "list_all (\<lambda>ev. case ev of CropScreenshot png seed area p rect \<Rightarrow> rect = None | _ \<Rightarrow> True) cs"
    by (auto simp: list_all_iff split: call.splits)
  with cs show "\<exists>cs. calls w' = calls w @ cs
           \<and> list_all (\<lambda>ev. case ev of CropScreenshot png seed area p rect \<Rightarrow> rect = None | _ \<Rightarrow> True) cs"
    by blast
next
  assume "o_pageDimensions opts = None"
  then show "capture E c forError (opts\<lparr> o_cropDimensions := Some rectangle \<rparr>) w
          = capture E c forError (opts\<lparr> o_cropDimensions := None \<rparr>) w"
    by (simp add: capture_def resolve_def pipeline_def getCropDimensions_def Let_def cong del: if_weak_cong)
qed

theorem crop_rectangle_needs_geometry_witness:
  "o_pageDimensions noOptions = None
   \<and> getCropDimensions (Some rectangle0) (o_pageDimensions noOptions) = None
   \<and> CropScreenshot [1, 2, 3] None None ''/tmp/i.png'' None
       \<in> set (calls (snd (capture (demo Produces) capturer0 False (noOptions\<lparr> o_cropDimensions := Some rectangle0 \<rparr>) world0)))
   \<and> list_all (\<lambda>ev. case ev of CropScreenshot png seed area p rect \<Rightarrow> rect = None | _ \<Rightarrow> True)
       (calls (snd (capture (demo Produces) capturer0 False (noOptions\<lparr> o_cropDimensions := Some rectangle0 \<rparr>) world0)))
   \<and> capture (demo Produces) capturer0 False (noOptions\<lparr> o_cropDimensions := Some rectangle0 \<rparr>) world0
       = capture (demo Produces) capturer0 False (noOptions\<lparr> o_cropDimensions := None \<rparr>) world0"
proof -
  let ?opts = "noOptions\<lparr> o_cropDimensions := Some rectangle0 \<rparr>"
  have p: "o_pageDimensions noOptions = None" "o_pageDimensions ?opts = None"
    by (simp_all add: noOptions_def)
  have m: "CropScreenshot [1, 2, 3] None None ''/tmp/i.png'' None
       \<in> set (calls (snd (capture (demo Produces) capturer0 False ?opts world0)))"
    by (simp add: demo_defs)
  have e: "calls world0 = []" by (simp add: world0_def)
  have u: "noOptions\<lparr> o_cropDimensions := Some rectangle0, o_cropDimensions := Some rectangle0 \<rparr> = ?opts"
    "noOptions\<lparr> o_cropDimensions := Some rectangle0, o_cropDimensions := None \<rparr> = noOptions\<lparr> o_cropDimensions := None \<rparr>"
    by simp_all
  from crop_rectangle_needs_geometry [of "Some rectangle0" None ?opts "demo Produces" capturer0 False world0
      "fst (capture (demo Produces) capturer0 False ?opts world0)"
      "snd (capture (demo Produces) capturer0 False ?opts world0)" rectangle0] p m
  show ?thesis unfolding e u by auto
qed

end
